theory Spec2Isabelle
  imports Complex_Main
begin

section \<open>Portfolio page script: a shallow embedding of script.js\<close>

text \<open>
  The script drives a static portfolio page: rate-limited event handlers, the navigation
  bar, a count-up animation, the contact form and the scroll-to-top button. Each class of
  the script becomes a record holding the part of the DOM it owns, each method a function
  from state to state. Timers are explicit: a wrapper's state carries a clock and the list
  of its pending timeouts, and time passes only through an \<open>Elapse\<close> event, which
  is where the event loop runs the callbacks that have come due. Exceptions of the platform
  (a missing element, an unencodable string, an invalid selector) are values of
  \<open>js_error\<close>, returned together with the state at the throw.
\<close>

subsection \<open>Strings\<close>

text \<open>
  A JavaScript string is modelled as the list of its code points, in the order in which the
  string iterator yields them: a surrogate pair is one element, an unpaired surrogate is an
  element between 0xD800 and 0xDFFF. The operations used by the script (concatenation,
  equality, trim, a regular expression made of one-character classes, encodeURIComponent)
  give the same result on code points as on UTF-16 code units. \<open>js\<close> writes an ASCII
  literal of the source.
\<close>

type_synonym jsstring = "nat list"

definition js :: "string \<Rightarrow> jsstring" where
  "js s = map of_char s"

datatype js_error = TypeError | URIError | SyntaxError

text \<open>
  White space as ECMAScript defines it for both \<open>String.prototype.trim\<close> and the
  class escape \<open>\s\<close>: TAB, LF, VT, FF, CR, SPACE, NBSP, U+1680, U+2000 to U+200A,
  U+2028, U+2029, U+202F, U+205F, U+3000 and U+FEFF.
\<close>

definition isWhiteSpace :: "nat \<Rightarrow> bool" where
  "isWhiteSpace c =
     (c \<in> set [0x9, 0xA, 0xB, 0xC, 0xD, 0x20, 0xA0, 0x1680, 0x2028, 0x2029, 0x202F, 0x205F,
               0x3000, 0xFEFF]
      \<or> (0x2000 \<le> c \<and> c \<le> 0x200A))"

definition trim :: "jsstring \<Rightarrow> jsstring" where
  "trim s = rev (dropWhile isWhiteSpace (rev (dropWhile isWhiteSpace s)))"

subsection \<open>Numbers\<close>

text \<open>
  A JavaScript number is an IEEE 754 double. A finite double is kept as its two integers,
  a mantissa of at most 53 bits and an exponent between -1074 and 971, and stands for
  mantissa times two to the exponent; NaN and the infinities are not values of the model,
  and an operation whose result would be infinite returns None. Every operation is the
  exact one followed by rounding to the nearest double, ties to the even mantissa.
\<close>

record double =
  mantissa :: int
  exponent :: int

text \<open>The number of binary digits of a positive integer.\<close>

function bitlen :: "int \<Rightarrow> int" where
  "bitlen n = (if n \<le> 0 then 0 else 1 + bitlen (n div 2))"
  by pat_completeness auto
termination
  by (relation "measure nat") auto

declare bitlen.simps [simp del]

text \<open>The integer nearest to p / q, for a positive q, ties to the even one.\<close>

definition div_half_even :: "int \<Rightarrow> int \<Rightarrow> int" where
  "div_half_even p q =
     (let f = p div q; r = p mod q
      in if 2 * r < q then f else if q < 2 * r then f + 1 else if even f then f else f + 1)"

text \<open>
  For positive q and non-zero p, the exponent s at which p / q has a mantissa of exactly
  53 bits: two to the 52 is at most the absolute value of p / q divided by two to the s,
  which is below two to the 53.
\<close>

definition scale_exponent :: "int \<Rightarrow> int \<Rightarrow> int" where
  "scale_exponent p q =
     (let g = bitlen \<bar>p\<bar> - bitlen q;
          l = (if 0 \<le> g then (if q * 2 ^ nat g \<le> \<bar>p\<bar> then g else g - 1)
               else (if q \<le> \<bar>p\<bar> * 2 ^ nat (- g) then g else g - 1))
      in l - 52)"

text \<open>
  The double nearest to p / q times two to the e, for a positive q. The exponent is not
  taken below -1074 (the subnormal numbers); a result of two to the 1024 or more is
  an infinity.
\<close>

definition round_quotient :: "int \<Rightarrow> int \<Rightarrow> int \<Rightarrow> double option" where
  "round_quotient p q e =
     (if p = 0 then Some \<lparr>mantissa = 0, exponent = 0\<rparr>
      else let s = max (scale_exponent p q) (- 1074 - e);
               m = (if 0 \<le> s then div_half_even p (q * 2 ^ nat s)
                    else div_half_even (p * 2 ^ nat (- s)) q)
           in if 971 < e + s \<or> (e + s = 971 \<and> 2 ^ 53 \<le> \<bar>m\<bar>) then None
              else Some \<lparr>mantissa = m, exponent = e + s\<rparr>)"

text \<open>Addition, the comparison of an integer with a double, and Math.floor.\<close>

definition double_add :: "double \<Rightarrow> double \<Rightarrow> double option" where
  "double_add a b =
     (let e = min (exponent a) (exponent b)
      in round_quotient
           (mantissa a * 2 ^ nat (exponent a - e) + mantissa b * 2 ^ nat (exponent b - e)) 1 e)"

definition int_le_double :: "int \<Rightarrow> double \<Rightarrow> bool" where
  "int_le_double i a =
     (if 0 \<le> exponent a then i \<le> mantissa a * 2 ^ nat (exponent a)
      else i * 2 ^ nat (- exponent a) \<le> mantissa a)"

definition double_floor :: "double \<Rightarrow> int" where
  "double_floor a =
     (if 0 \<le> exponent a then mantissa a * 2 ^ nat (exponent a)
      else mantissa a div 2 ^ nat (- exponent a))"

text \<open>
  Number to string, for an integer of absolute value up to two to the 53, where every
  integer is a double and JavaScript prints all its decimal digits, with a minus sign for
  a negative number. Beyond that range the conversion is not modelled.
\<close>

fun digits :: "nat \<Rightarrow> jsstring" where
  "digits n = (if n < 10 then [0x30 + n] else digits (n div 10) @ [0x30 + n mod 10])"

declare digits.simps [simp del]

definition decimal :: "int \<Rightarrow> jsstring" where
  "decimal i = (if i < 0 then 0x2D # digits (nat (- i)) else digits (nat i))"

definition numberToString :: "int \<Rightarrow> jsstring option" where
  "numberToString i = (if \<bar>i\<bar> \<le> 2 ^ 53 then Some (decimal i) else None)"

subsection \<open>Utility functions: throttle and debounce (lines 7 to 28)\<close>

text \<open>
  A wrapper is observed through a trace of events: \<open>Invoke args\<close> is one synchronous
  call of the wrapper, \<open>Elapse d\<close> lets d milliseconds pass, during which the event
  loop runs every timeout that has come due. Two invocations with no \<open>Elapse\<close>
  between them happen in the same task, where no timeout can run. The wrapped callback
  \<open>func\<close> is observed through the log of its invocations, each with the time and the
  arguments it received; it is taken not to call the wrapper itself. The callback of a
  debounce is the last thing its timeout does, so whether it returns or throws changes
  nothing of the wrapper's state. The callback of a throttle runs before the wrapper
  latches, so there every invocation also says how the callback would end.
\<close>

datatype 'a event = Invoke 'a | Elapse nat

datatype func_outcome = Returns | Throws

text \<open>
  throttle (lines 19 to 28). The closure holds \<open>inThrottle\<close> (undefined at first,
  which is falsy); the only timeouts are the ones that reset it. When the callback throws
  at line 23, lines 24 and 25 do not run: the exception leaves the wrapper, recorded in
  \<open>t_uncaught\<close>, with \<open>inThrottle\<close> still unset and no timeout set.
\<close>

record 'a throttle_state =
  t_now :: nat
  inThrottle :: bool
  t_timers :: "nat list"
  t_calls :: "(nat \<times> 'a) list"
  t_uncaught :: "(nat \<times> 'a) list"

definition throttle_init :: "'a throttle_state" where
  "throttle_init =
     \<lparr>t_now = 0, inThrottle = False, t_timers = [], t_calls = [], t_uncaught = []\<rparr>"

definition throttled ::
  "nat \<Rightarrow> 'a \<Rightarrow> func_outcome \<Rightarrow> 'a throttle_state \<Rightarrow> 'a throttle_state" where
  "throttled limit args outcome s =
     (if \<not> inThrottle s
      then (case outcome of
              Returns \<Rightarrow>
                s\<lparr>t_calls := t_calls s @ [(t_now s, args)],
                  inThrottle := True,
                  t_timers := t_timers s @ [t_now s + limit]\<rparr>
            | Throws \<Rightarrow>
                s\<lparr>t_calls := t_calls s @ [(t_now s, args)],
                  t_uncaught := t_uncaught s @ [(t_now s, args)]\<rparr>)
      else s)"

definition throttle_elapse :: "nat \<Rightarrow> 'a throttle_state \<Rightarrow> 'a throttle_state" where
  "throttle_elapse d s =
     (let t = t_now s + d in
      s\<lparr>t_now := t,
        inThrottle := (if filter (\<lambda>due. due \<le> t) (t_timers s) = [] then inThrottle s else False),
        t_timers := filter (\<lambda>due. t < due) (t_timers s)\<rparr>)"

fun throttle_step ::
  "nat \<Rightarrow> ('a \<times> func_outcome) event \<Rightarrow> 'a throttle_state \<Rightarrow> 'a throttle_state" where
  "throttle_step limit (Invoke (args, outcome)) s = throttled limit args outcome s"
| "throttle_step limit (Elapse d) s = throttle_elapse d s"

fun throttle_run ::
  "nat \<Rightarrow> ('a \<times> func_outcome) event list \<Rightarrow> 'a throttle_state \<Rightarrow> 'a throttle_state" where
  "throttle_run limit [] s = s"
| "throttle_run limit (e # es) s = throttle_run limit es (throttle_step limit e s)"

text \<open>The time that passes during a trace.\<close>

fun elapsed :: "'a event list \<Rightarrow> nat" where
  "elapsed [] = 0"
| "elapsed (Invoke a # es) = elapsed es"
| "elapsed (Elapse d # es) = d + elapsed es"

text \<open>
  debounce (lines 7 to 17). The closure holds \<open>timeout\<close>, the handle of the last
  timeout set (undefined at first). A pending timeout is its handle, its due time and the
  arguments its callback \<open>later\<close> captured.
\<close>

record 'a debounce_state =
  d_now :: nat
  timeout :: "nat option"
  d_next :: nat
  d_timers :: "(nat \<times> nat \<times> 'a) list"
  d_calls :: "(nat \<times> 'a) list"

definition debounce_init :: "'a debounce_state" where
  "debounce_init = \<lparr>d_now = 0, timeout = None, d_next = 1, d_timers = [], d_calls = []\<rparr>"

definition clearTimeout :: "nat option \<Rightarrow> 'a debounce_state \<Rightarrow> 'a debounce_state" where
  "clearTimeout h s =
     (case h of None \<Rightarrow> s
      | Some i \<Rightarrow> s\<lparr>d_timers := filter (\<lambda>tm. fst tm \<noteq> i) (d_timers s)\<rparr>)"

definition setTimeout :: "'a \<Rightarrow> nat \<Rightarrow> 'a debounce_state \<Rightarrow> nat \<times> 'a debounce_state" where
  "setTimeout args wait s =
     (d_next s, s\<lparr>d_timers := d_timers s @ [(d_next s, d_now s + wait, args)],
                  d_next := d_next s + 1\<rparr>)"

definition executedFunction :: "nat \<Rightarrow> 'a \<Rightarrow> 'a debounce_state \<Rightarrow> 'a debounce_state" where
  "executedFunction wait args s =
     (let s1 = clearTimeout (timeout s) s;
          (h, s2) = setTimeout args wait s1
      in s2\<lparr>timeout := Some h\<rparr>)"

definition later :: "'a \<Rightarrow> 'a debounce_state \<Rightarrow> 'a debounce_state" where
  "later args s =
     (let s1 = clearTimeout (timeout s) s
      in s1\<lparr>d_calls := d_calls s1 @ [(d_now s1, args)]\<rparr>)"

text \<open>
  The event loop: among the timeouts due by time t the earliest runs first (the one set
  first among equals); its callback runs at its due time and may clear other timeouts.
\<close>

fun next_due :: "nat \<Rightarrow> (nat \<times> nat \<times> 'a) list \<Rightarrow> (nat \<times> nat \<times> 'a) option" where
  "next_due t [] = None"
| "next_due t (tm # tms) =
     (case next_due t tms of
        None \<Rightarrow> (if fst (snd tm) \<le> t then Some tm else None)
      | Some tm' \<Rightarrow> (if fst (snd tm) \<le> fst (snd tm') then Some tm else Some tm'))"

lemma clearTimeout_length: "length (d_timers (clearTimeout h s)) \<le> length (d_timers s)"
  by (simp add: clearTimeout_def split: option.splits)

lemma later_length: "length (d_timers (later args s)) \<le> length (d_timers s)"
  by (simp add: later_def Let_def clearTimeout_length)

lemma next_due_mem: "next_due t tms = Some tm \<Longrightarrow> tm \<in> set tms"
  by (induction tms arbitrary: tm) (auto split: option.splits if_splits)

function debounce_elapse_to :: "nat \<Rightarrow> 'a debounce_state \<Rightarrow> 'a debounce_state" where
  "debounce_elapse_to t s =
     (case next_due t (d_timers s) of
        None \<Rightarrow> s\<lparr>d_now := max t (d_now s)\<rparr>
      | Some (i, due, args) \<Rightarrow>
          debounce_elapse_to t
            (later args (s\<lparr>d_now := max due (d_now s),
                           d_timers := filter (\<lambda>tm. fst tm \<noteq> i) (d_timers s)\<rparr>)))"
  by pat_completeness auto
termination
proof (relation "measure (\<lambda>(t, s). length (d_timers s))")
  show "wf (measure (\<lambda>(t, s::'a debounce_state). length (d_timers s)))" by simp
next
  fix t :: nat and s :: "'a debounce_state" and x2 i y due args
  assume nd: "next_due t (d_timers s) = Some x2" and x2: "(i, y) = x2" and y: "(due, args) = y"
  from nd x2 y have mem: "(i, due, args) \<in> set (d_timers s)"
    using next_due_mem by fastforce
  have a: "length (filter (\<lambda>tm. fst tm \<noteq> i) (d_timers s)) < length (d_timers s)"
    using mem by (metis (mono_tags, lifting) fst_conv length_filter_less)
  have b: "length (d_timers (later args (s\<lparr>d_now := max due (d_now s),
                           d_timers := filter (\<lambda>tm. fst tm \<noteq> i) (d_timers s)\<rparr>)))
        \<le> length (filter (\<lambda>tm. fst tm \<noteq> i) (d_timers s))"
    using later_length [of args "s\<lparr>d_now := max due (d_now s),
                           d_timers := filter (\<lambda>tm. fst tm \<noteq> i) (d_timers s)\<rparr>"] by simp
  show "((t, later args (s\<lparr>d_now := max due (d_now s),
                           d_timers := filter (\<lambda>tm. fst tm \<noteq> i) (d_timers s)\<rparr>)), (t, s))
        \<in> measure (\<lambda>(t, s). length (d_timers s))"
    using a b by simp
qed

declare debounce_elapse_to.simps [simp del]

definition debounce_elapse :: "nat \<Rightarrow> 'a debounce_state \<Rightarrow> 'a debounce_state" where
  "debounce_elapse d s = debounce_elapse_to (d_now s + d) s"

fun debounce_step :: "nat \<Rightarrow> 'a event \<Rightarrow> 'a debounce_state \<Rightarrow> 'a debounce_state" where
  "debounce_step wait (Invoke args) s = executedFunction wait args s"
| "debounce_step wait (Elapse d) s = debounce_elapse d s"

fun debounce_run :: "nat \<Rightarrow> 'a event list \<Rightarrow> 'a debounce_state \<Rightarrow> 'a debounce_state" where
  "debounce_run wait [] s = s"
| "debounce_run wait (e # es) s = debounce_run wait es (debounce_step wait e s)"

text \<open>
  A burst: each invocation but the last is followed by a gap, the time to the next one.
\<close>

fun burst :: "('a \<times> nat) list \<Rightarrow> 'a event list" where
  "burst [] = []"
| "burst ((args, gap) # xs) = Invoke args # Elapse gap # burst xs"

subsection \<open>Navigation (lines 46 to 147)\<close>

text \<open>
  The navigation owns the nav bar, the menu, the hamburger control and the nav links, and
  writes the overflow style of the body. A class list is the set of its class names.
  \<open>scrollTo_calls\<close> records the calls of \<open>window.scrollTo\<close>, each with its
  \<open>top\<close> and \<open>behavior\<close>. Offsets of elements are integers; the scroll
  offset of the window is a number that may be fractional, a rational here.
\<close>

record element =
  el_id :: jsstring
  offsetTop :: int
  offsetHeight :: int

record nav_link =
  href :: "jsstring option"
  link_classList :: "string set"

record navigation =
  navbar_classList :: "string set"
  navMenu_classList :: "string set"
  hamburger_classList :: "string set"
  body_overflow :: string
  navLinks :: "nav_link list"
  scrollTo_calls :: "(int \<times> string) list"


text \<open>\<open>classList.toggle(c)\<close> and \<open>classList.toggle(c, force)\<close>.\<close>

definition classList_toggle :: "string \<Rightarrow> string set \<Rightarrow> string set" where
  "classList_toggle c cl = (if c \<in> cl then cl - {c} else insert c cl)"

definition classList_force :: "string \<Rightarrow> bool \<Rightarrow> string set \<Rightarrow> string set" where
  "classList_force c force cl = (if force then insert c cl else cl - {c})"

definition toggleMobileMenu :: "navigation \<Rightarrow> navigation" where
  "toggleMobileMenu nav =
     (let menu = classList_toggle ''active'' (navMenu_classList nav)
      in nav\<lparr>navMenu_classList := menu,
             hamburger_classList := classList_toggle ''active'' (hamburger_classList nav),
             body_overflow := (if ''active'' \<in> menu then ''hidden'' else '''')\<rparr>)"





definition handleScroll :: "rat \<Rightarrow> navigation \<Rightarrow> navigation" where
  "handleScroll scrollY nav =
     (let scrolled = (scrollY > 50)
      in nav\<lparr>navbar_classList := classList_force ''scrolled'' scrolled (navbar_classList nav)\<rparr>)"

text \<open>
  updateActiveLink (lines 128 to 146): \<open>sections\<close> is the result of
  \<open>querySelectorAll('section[id]')\<close>, in document order. The test of line 137 is
  \<open>in_span\<close>, the inner loop over the links (lines 138 to 143) is \<open>mark_link\<close>
  on every link. Neither loop stops early.
\<close>

definition in_span :: "rat \<Rightarrow> element \<Rightarrow> bool" where
  "in_span scrollPosition section =
     (let sectionTop = offsetTop section; sectionHeight = offsetHeight section
      in scrollPosition \<ge> of_int sectionTop \<and> scrollPosition < of_int (sectionTop + sectionHeight))"

definition mark_link :: "jsstring \<Rightarrow> nav_link \<Rightarrow> nav_link" where
  "mark_link sectionId link =
     (let link1 = link\<lparr>link_classList := link_classList link - {''active''}\<rparr>
      in if href link1 = Some (js ''#'' @ sectionId)
         then link1\<lparr>link_classList := insert ''active'' (link_classList link1)\<rparr>
         else link1)"

definition updateActiveLink :: "element list \<Rightarrow> rat \<Rightarrow> navigation \<Rightarrow> navigation" where
  "updateActiveLink sections scrollY nav =
     (let scrollPosition = scrollY + 100
      in foldl (\<lambda>nav section.
                  if in_span scrollPosition section
                  then nav\<lparr>navLinks := map (mark_link (el_id section)) (navLinks nav)\<rparr>
                  else nav)
               nav sections)"

text \<open>The callback of the scroll listener (lines 76 to 79), once the throttle lets it run.\<close>

definition navigation_onScroll :: "element list \<Rightarrow> rat \<Rightarrow> navigation \<Rightarrow> navigation" where
  "navigation_onScroll sections scrollY nav =
     updateActiveLink sections scrollY (handleScroll scrollY nav)"

subsection \<open>ScrollToTop (lines 417 to 480)\<close>

text \<open>
  Of the button's inline style only \<open>opacity\<close> and \<open>visibility\<close> change with
  the scroll offset; createButton sets them to 0 and hidden.
\<close>

record scroll_button =
  opacity :: string
  visibility :: string

definition createButton :: scroll_button where
  "createButton = \<lparr>opacity = ''0'', visibility = ''hidden''\<rparr>"

definition toggleButton :: "rat \<Rightarrow> scroll_button \<Rightarrow> scroll_button" where
  "toggleButton scrollY button =
     (let scrolled = (scrollY > 300)
      in button\<lparr>opacity := (if scrolled then ''1'' else ''0''),
                visibility := (if scrolled then ''visible'' else ''hidden'')\<rparr>)"

subsection \<open>AnimationManager: the counter animation (lines 224 to 236)\<close>

text \<open>
  \<open>target\<close> is the integer that \<open>parseInt\<close> read from the element; the model
  covers targets of absolute value up to two to the 53, and returns None for any other and
  wherever a number leaves the range of the model. The state of one animation is the
  closure variable \<open>current\<close>, a double, the text of the element and whether the
  interval is still set. \<open>counter_tick\<close> is the interval callback: line 226 is the
  rounded quotient of the target by 60, line 228 the rounded sum. \<open>counter_run n\<close> lets
  the interval fire up to n times.
\<close>

record counter =
  current :: double
  textContent :: jsstring
  timer_running :: bool

definition counter_tick :: "int \<Rightarrow> counter \<Rightarrow> counter option" where
  "counter_tick target c =
     (if 2 ^ 53 < \<bar>target\<bar> then None
      else case round_quotient target 60 0 of
        None \<Rightarrow> None
      | Some increment \<Rightarrow>
          (case double_add (current c) increment of
             None \<Rightarrow> None
           | Some cur \<Rightarrow>
               if int_le_double target cur
               then map_option
                      (\<lambda>shown. c\<lparr>current := cur,
                         textContent := shown @ (if target = 3 then js ''+'' else js ''''),
                         timer_running := False\<rparr>)
                      (numberToString target)
               else map_option
                      (\<lambda>shown. c\<lparr>current := cur,
                         textContent := shown @ (if target > 10 then js ''+'' else js '''')\<rparr>)
                      (numberToString (double_floor cur))))"

fun counter_run :: "nat \<Rightarrow> int \<Rightarrow> counter \<Rightarrow> counter option" where
  "counter_run 0 target c = Some c"
| "counter_run (Suc n) target c =
     (if timer_running c
      then (case counter_tick target c of None \<Rightarrow> None | Some c' \<Rightarrow> counter_run n target c')
      else Some c)"

definition animateCounter :: "jsstring \<Rightarrow> counter" where
  "animateCounter original =
     \<lparr>current = \<lparr>mantissa = 0, exponent = 0\<rparr>, textContent = original, timer_running = True\<rparr>"

subsection \<open>ContactForm (lines 256 to 414)\<close>

text \<open>
  The email pattern of line 292 is a sequence of items, each a one-character class with a
  quantifier. \<open>regex_test\<close> is \<open>RegExp.prototype.test\<close> for such a pattern
  anchored at both ends: it tries every way of splitting the input among the items.
\<close>

datatype class_atom = ClassChar nat | ClassSpace

datatype char_class = Literal nat | NoneOf "class_atom list"

datatype quantifier = Once | OneOrMore

type_synonym pattern = "(char_class \<times> quantifier) list"

fun atom_matches :: "class_atom \<Rightarrow> nat \<Rightarrow> bool" where
  "atom_matches (ClassChar x) c = (c = x)"
| "atom_matches ClassSpace c = isWhiteSpace c"

fun class_matches :: "char_class \<Rightarrow> nat \<Rightarrow> bool" where
  "class_matches (Literal x) c = (c = x)"
| "class_matches (NoneOf atoms) c = (\<not> list_ex (\<lambda>a. atom_matches a c) atoms)"

fun regex_test :: "pattern \<Rightarrow> jsstring \<Rightarrow> bool" where
  "regex_test [] s = (s = [])"
| "regex_test ((cls, q) # p) [] = False"
| "regex_test ((cls, Once) # p) (c # cs) = (class_matches cls c \<and> regex_test p cs)"
| "regex_test ((cls, OneOrMore) # p) (c # cs) =
     (class_matches cls c \<and> (regex_test ((cls, OneOrMore) # p) cs \<or> regex_test p cs))"

definition emailRegex :: pattern where
  "emailRegex =
     [(NoneOf [ClassSpace, ClassChar 0x40], OneOrMore), (Literal 0x40, Once),
      (NoneOf [ClassSpace, ClassChar 0x40], OneOrMore), (Literal 0x2E, Once),
      (NoneOf [ClassSpace, ClassChar 0x40], OneOrMore)]"

text \<open>
  The form: \<open>elems\<close> maps the reference of an input or textarea to its state,
  \<open>inputs\<close> is the result of \<open>querySelectorAll('input, textarea')\<close>, and
  \<open>field_errors\<close> gives, for a parent node, the texts of the elements of class
  field-error below it, in document order (parents of different fields are taken to be
  the same node or disjoint). \<open>querySelector('.field-error')\<close> finds the first of
  them, \<open>appendChild\<close> adds the last; the inline style of an error element is the
  same for all and left out. \<open>timeouts\<close> holds the callbacks that sendEmail
  schedules, with their delays; running them is not part of the model.
\<close>

record field =
  field_value :: jsstring
  field_type :: jsstring
  field_classList :: "string set"
  parentNode :: nat

record button =
  innerHTML :: jsstring
  disabled :: bool

datatype timer_callback = ResetForm jsstring

record contact_form =
  elems :: "nat \<Rightarrow> field"
  inputs :: "nat list"
  field_errors :: "nat \<Rightarrow> jsstring list"
  submitButton :: "button option"
  location_href :: jsstring
  timeouts :: "(nat \<times> timer_callback) list"

definition clearFieldError :: "nat \<Rightarrow> contact_form \<Rightarrow> contact_form" where
  "clearFieldError f p =
     (let fld = elems p f;
          fld' = fld\<lparr>field_classList := field_classList fld - {''error''}\<rparr>;
          parent = parentNode fld
      in p\<lparr>elems := (elems p)(f := fld'),
           field_errors := (field_errors p)(parent :=
             (case field_errors p parent of [] \<Rightarrow> [] | errorElement # others \<Rightarrow> others))\<rparr>)"

definition showFieldError :: "nat \<Rightarrow> jsstring \<Rightarrow> contact_form \<Rightarrow> contact_form" where
  "showFieldError f message p =
     (let p1 = clearFieldError f p;
          fld = elems p1 f;
          fld' = fld\<lparr>field_classList := insert ''error'' (field_classList fld)\<rparr>;
          parent = parentNode fld
      in p1\<lparr>elems := (elems p1)(f := fld'),
            field_errors := (field_errors p1)(parent := field_errors p1 parent @ [message])\<rparr>)"

definition validateField :: "nat \<Rightarrow> contact_form \<Rightarrow> bool \<times> contact_form" where
  "validateField f p =
     (let v = trim (field_value (elems p f));
          (isValid, errorMessage) =
            (if v = [] then (False, js ''This field is required'')
             else if field_type (elems p f) = js ''email''
             then (if \<not> regex_test emailRegex v
                   then (False, js ''Please enter a valid email address'')
                   else (True, []))
             else (True, []))
      in (isValid, if \<not> isValid then showFieldError f errorMessage p else clearFieldError f p))"

text \<open>
  encodeURIComponent, as ECMAScript defines it: the unreserved characters (letters, digits
  and \<open>- _ . ! ~ * ' ( )\<close>) stand for themselves, every other code point is written
  as the bytes of its UTF-8 encoding, each byte as a percent sign and two upper-case
  hexadecimal digits; an unpaired surrogate throws a URIError.
\<close>

definition uriUnreserved :: "nat \<Rightarrow> bool" where
  "uriUnreserved c =
     ((0x41 \<le> c \<and> c \<le> 0x5A) \<or> (0x61 \<le> c \<and> c \<le> 0x7A) \<or> (0x30 \<le> c \<and> c \<le> 0x39)
      \<or> c \<in> set [0x2D, 0x5F, 0x2E, 0x21, 0x7E, 0x2A, 0x27, 0x28, 0x29])"

definition isScalarValue :: "nat \<Rightarrow> bool" where
  "isScalarValue c = (c < 0xD800 \<or> (0xE000 \<le> c \<and> c < 0x110000))"

definition hexDigit :: "nat \<Rightarrow> nat" where
  "hexDigit n = (if n < 10 then 0x30 + n else 0x41 + (n - 10))"

definition percentByte :: "nat \<Rightarrow> jsstring" where
  "percentByte b = [0x25, hexDigit (b div 16), hexDigit (b mod 16)]"

definition utf8 :: "nat \<Rightarrow> nat list" where
  "utf8 c =
     (if c < 0x80 then [c]
      else if c < 0x800 then [0xC0 + c div 64, 0x80 + c mod 64]
      else if c < 0x10000 then [0xE0 + c div 4096, 0x80 + (c div 64) mod 64, 0x80 + c mod 64]
      else [0xF0 + c div 262144, 0x80 + (c div 4096) mod 64, 0x80 + (c div 64) mod 64,
            0x80 + c mod 64])"

definition encodeCodePoint :: "nat \<Rightarrow> jsstring" where
  "encodeCodePoint c = (if uriUnreserved c then [c] else concat (map percentByte (utf8 c)))"

fun encodeURIComponent :: "jsstring \<Rightarrow> js_error + jsstring" where
  "encodeURIComponent [] = Inr []"
| "encodeURIComponent (c # cs) =
     (if \<not> isScalarValue c then Inl URIError
      else (case encodeURIComponent cs of
              Inl e \<Rightarrow> Inl e
            | Inr rest \<Rightarrow> Inr (encodeCodePoint c @ rest)))"

text \<open>
  sendEmail (lines 357 to 388). \<open>data\<close> is the object that \<open>Object.fromEntries\<close>
  built from the form: a property is a string or missing, and a missing property is
  interpolated as \<open>undefined\<close>. The two template literals of lines 366 to 374 are
  \<open>mailSubject\<close> and \<open>mailBody\<close>; the body starts with a line feed and ends with
  a line feed and four spaces, as the source lays it out. A form without a submit button
  makes line 359 throw a TypeError.
\<close>

definition interpolate :: "jsstring option \<Rightarrow> jsstring" where
  "interpolate v = (case v of None \<Rightarrow> js ''undefined'' | Some s \<Rightarrow> s)"

definition mailSubject :: "(jsstring \<Rightarrow> jsstring option) \<Rightarrow> jsstring" where
  "mailSubject data = js ''Portfolio Contact: '' @ interpolate (data (js ''subject''))"

definition mailBody :: "(jsstring \<Rightarrow> jsstring option) \<Rightarrow> jsstring" where
  "mailBody data =
     [0xA] @ js ''Name: '' @ interpolate (data (js ''name'')) @
     [0xA] @ js ''Email: '' @ interpolate (data (js ''email'')) @
     [0xA] @ js ''Subject: '' @ interpolate (data (js ''subject'')) @
     [0xA, 0xA] @ js ''Message:'' @
     [0xA] @ interpolate (data (js ''message'')) @
     [0xA] @ js ''    ''"

definition sendEmail ::
  "(jsstring \<Rightarrow> jsstring option) \<Rightarrow> contact_form \<Rightarrow> (js_error \<times> contact_form) + contact_form" where
  "sendEmail data p =
     (case submitButton p of
        None \<Rightarrow> Inl (TypeError, p)
      | Some submit \<Rightarrow>
          (let originalText = innerHTML submit;
               p1 = p\<lparr>submitButton := Some (submit\<lparr>
                      innerHTML := js ''<i class='' @ [0x22] @ js ''fas fa-spinner fa-spin'' @ [0x22]
                                   @ js ''></i> Sending...'',
                      disabled := True\<rparr>)\<rparr>
           in case encodeURIComponent (mailSubject data) of
                Inl e \<Rightarrow> Inl (e, p1)
              | Inr subject \<Rightarrow>
                  (case encodeURIComponent (mailBody data) of
                     Inl e \<Rightarrow> Inl (e, p1)
                   | Inr body \<Rightarrow>
                       Inr (p1\<lparr>location_href :=
                                 js ''mailto:saikumarpolavaram@outlook.com?subject='' @ subject
                                 @ js ''&body='' @ body,
                               timeouts := timeouts p1 @ [(1000, ResetForm originalText)]\<rparr>))))"

text \<open>
  handleFormSubmit (lines 338 to 355): \<open>validateAll\<close> is the loop of lines 346 to 350,
  which calls validateField on every input and never stops early. \<open>data\<close> is read
  from the form before the loop and is a parameter here.
\<close>

definition validateAll :: "contact_form \<Rightarrow> bool \<times> contact_form" where
  "validateAll p =
     foldl (\<lambda>(isFormValid, q) input.
              (let (ok, q') = validateField input q
               in (if \<not> ok then False else isFormValid, q')))
           (True, p) (inputs p)"

definition handleFormSubmit ::
  "(jsstring \<Rightarrow> jsstring option) \<Rightarrow> contact_form \<Rightarrow> (js_error \<times> contact_form) + contact_form" where
  "handleFormSubmit data p =
     (let (isFormValid, p') = validateAll p
      in if isFormValid then sendEmail data p' else Inr p')"

text \<open>
  What can happen to one field: the blur listener validates it, an error is shown or
  cleared, the user edits the value.
\<close>

datatype field_op = Validate | ShowError jsstring | ClearError | SetValue jsstring

fun apply_field_op :: "nat \<Rightarrow> field_op \<Rightarrow> contact_form \<Rightarrow> contact_form" where
  "apply_field_op f Validate p = snd (validateField f p)"
| "apply_field_op f (ShowError message) p = showFieldError f message p"
| "apply_field_op f ClearError p = clearFieldError f p"
| "apply_field_op f (SetValue v) p =
     p\<lparr>elems := (elems p)(f := (elems p f)\<lparr>field_value := v\<rparr>)\<rparr>"

definition apply_field_ops :: "nat \<Rightarrow> field_op list \<Rightarrow> contact_form \<Rightarrow> contact_form" where
  "apply_field_ops f ops p = foldl (\<lambda>q op. apply_field_op f op q) p ops"

subsection \<open>Notions used in the statements\<close>

text \<open>
  The shape the email pattern describes: a local part, an at sign, a domain, a dot and a
  last part, the three parts non-empty and free of white space and at signs.
\<close>

definition address_char :: "nat \<Rightarrow> bool" where
  "address_char c = (\<not> isWhiteSpace c \<and> c \<noteq> 0x40)"

definition email_shape :: "jsstring \<Rightarrow> bool" where
  "email_shape v =
     (\<exists>local domain tld. v = local @ [0x40] @ domain @ [0x2E] @ tld
        \<and> local \<noteq> [] \<and> domain \<noteq> [] \<and> tld \<noteq> []
        \<and> list_all address_char local \<and> list_all address_char domain
        \<and> list_all address_char tld)"

text \<open>Percent-encoding of a string that has no unpaired surrogate.\<close>

definition percentEncode :: "jsstring \<Rightarrow> jsstring" where
  "percentEncode s = concat (map encodeCodePoint s)"

text \<open>Two states of the form whose fields hold the same values and types.\<close>

definition same_input :: "contact_form \<Rightarrow> contact_form \<Rightarrow> bool" where
  "same_input p q =
     (\<forall>g. field_value (elems q g) = field_value (elems p g)
          \<and> field_type (elems q g) = field_type (elems p g))"

text \<open>The state after validating the fields of a list in turn.\<close>

definition validateEach :: "nat list \<Rightarrow> contact_form \<Rightarrow> contact_form" where
  "validateEach fs q = foldl (\<lambda>q f. snd (validateField f q)) q fs"

text \<open>
  At most one error element below the parent of a field, and one exactly when the field has
  the class error.
\<close>

definition single_error :: "nat \<Rightarrow> contact_form \<Rightarrow> bool" where
  "single_error f p =
     (length (field_errors p (parentNode (elems p f))) \<le> 1
      \<and> (length (field_errors p (parentNode (elems p f))) = 1) =
          (''error'' \<in> field_classList (elems p f)))"

text \<open>The loop of updateActiveLink at a given scroll position.\<close>

definition scan_sections :: "rat \<Rightarrow> element list \<Rightarrow> navigation \<Rightarrow> navigation" where
  "scan_sections scrollPosition sections nav =
     foldl (\<lambda>nav section.
              if in_span scrollPosition section
              then nav\<lparr>navLinks := map (mark_link (el_id section)) (navLinks nav)\<rparr>
              else nav)
           nav sections"

text \<open>
  Invariants of the two wrappers: a throttle has a pending timeout only while
  \<open>inThrottle\<close> is set, and never two; every pending timeout of a debounce is the one
  \<open>timeout\<close> names.
\<close>

definition throttle_idle :: "'a throttle_state \<Rightarrow> bool" where
  "throttle_idle s = (case t_timers s of [] \<Rightarrow> True | [due] \<Rightarrow> inThrottle s | _ \<Rightarrow> False)"

definition quiet :: "'a debounce_state \<Rightarrow> bool" where
  "quiet s = list_all (\<lambda>tm. timeout s = Some (fst tm)) (d_timers s)"

subsection \<open>Example pages\<close>

definition overlap_sections :: "element list" where
  "overlap_sections =
     [\<lparr>el_id = js ''home'', offsetTop = 0, offsetHeight = 600\<rparr>,
      \<lparr>el_id = js ''about'', offsetTop = 500, offsetHeight = 600\<rparr>]"

definition unlinked_sections :: "element list" where
  "unlinked_sections = [\<lparr>el_id = js ''contact'', offsetTop = 0, offsetHeight = 600\<rparr>]"

definition two_links :: navigation where
  "two_links = \<lparr>navbar_classList = {}, navMenu_classList = {''active''},
     hamburger_classList = {''active''}, body_overflow = ''hidden'',
     navLinks = [\<lparr>href = Some (js ''#home''), link_classList = {''nav-link'', ''active''}\<rparr>,
                 \<lparr>href = Some (js ''#about''), link_classList = {''nav-link''}\<rparr>],
     scrollTo_calls = []\<rparr>"


definition example_data :: "jsstring \<Rightarrow> jsstring option" where
  "example_data = map_of [(js ''name'', js ''A''), (js ''email'', js ''a@b.com''),
                          (js ''subject'', js ''Hi''), (js ''message'', js ''Test'')]"

definition example_field :: "nat \<Rightarrow> field" where
  "example_field i =
     \<lparr>field_value = (if i = 0 then js ''  '' else if i = 2 then js ''a@b.c''
                      else if i = 3 then js ''not-an-email'' else js ''Hello''),
      field_type = (if i = 2 \<or> i = 3 then js ''email'' else js ''text''),
      field_classList = {}, parentNode = i\<rparr>"

definition example_form :: "nat list \<Rightarrow> contact_form" where
  "example_form fs = \<lparr>
     elems = example_field,
     inputs = fs,
     field_errors = (\<lambda>i. []),
     submitButton = Some \<lparr>innerHTML = js ''Send Message'', disabled = False\<rparr>,
     location_href = js ''https://example.org/'',
     timeouts = []\<rparr>"

section \<open>Properties\<close>

subsection \<open>throttle\<close>

text \<open>
  While \<open>inThrottle\<close> is set and no pending timeout comes due before the trace ends,
  the callback is not invoked.
\<close>

lemma throttle_suppressed:
  "inThrottle s \<Longrightarrow> \<forall>due\<in>set (t_timers s). t_now s + elapsed es < due \<Longrightarrow>
   t_calls (throttle_run limit es s) = t_calls s
   \<and> t_uncaught (throttle_run limit es s) = t_uncaught s"
proof (induction es arbitrary: s)
  case Nil
  then show ?case by simp
next
  case (Cons e es)
  show ?case
  proof (cases e)
    case (Invoke x)
    obtain a outcome where x: "x = (a, outcome)" by (cases x)
    have "throttle_step limit e s = s"
      using Cons.prems(1) by (simp add: Invoke x throttled_def)
    with Cons Invoke show ?thesis by simp
  next
    case (Elapse d)
    let ?s' = "throttle_elapse d s"
    from Cons.prems(2) Elapse have far: "\<forall>due\<in>set (t_timers s). t_now s + d + elapsed es < due"
      by (simp add: add.assoc)
    then have none: "filter (\<lambda>due. due \<le> t_now s + d) (t_timers s) = []"
      by (auto simp: filter_empty_conv)
    from far have all: "filter (\<lambda>due. t_now s + d < due) (t_timers s) = t_timers s"
      by (auto simp: filter_id_conv)
    have s': "?s' = s\<lparr>t_now := t_now s + d\<rparr>"
      using none all Cons.prems(1) by (simp add: throttle_elapse_def Let_def)
    have "t_calls (throttle_run limit es ?s') = t_calls ?s'
        \<and> t_uncaught (throttle_run limit es ?s') = t_uncaught ?s'"
      using Cons.prems(1) far by (intro Cons.IH) (simp_all add: s')
    with Elapse show ?thesis by (simp add: s')
  qed
qed

lemma throttle_idle_step: "throttle_idle s \<Longrightarrow> throttle_idle (throttle_step limit e s)"
proof (cases e)
  case (Invoke x)
  assume "throttle_idle s"
  then show ?thesis
    by (cases x; cases "snd x")
      (auto simp: Invoke throttle_idle_def throttled_def split: list.splits if_splits)
next
  case (Elapse d)
  assume "throttle_idle s"
  then show ?thesis
    by (auto simp: Elapse throttle_idle_def throttle_elapse_def Let_def
        split: list.splits if_splits)
qed

lemma throttle_idle_run: "throttle_idle s \<Longrightarrow> throttle_idle (throttle_run limit es s)"
  by (induction es arbitrary: s) (simp_all add: throttle_idle_step)

text \<open>
  C6, as the code has it. Take any state s the wrapper can reach in which
  \<open>inThrottle\<close> is not set, so that the next invocation opens a window. If the callback
  returns normally on that invocation, and any events follow (further invocations,
  whatever their callback would do, and passing time) that together take less than the
  interval, then the callback has been invoked exactly once more than before: at the time
  of the first invocation and with its arguments; every later invocation of the window is
  dropped. If the callback throws on that invocation instead, it has been invoked, the
  exception leaves the wrapper, and the wrapper stays as it was, \<open>inThrottle\<close> unset
  and no timeout pending, so that the next invocation reaches the callback again.
\<close>

theorem throttle_window:
  assumes "s = throttle_run limit pre throttle_init" and "\<not> inThrottle s"
    and "elapsed rest < limit"
  shows "t_calls (throttle_run limit (Invoke (a, Returns) # rest) s) = t_calls s @ [(t_now s, a)]
       \<and> t_uncaught (throttle_run limit (Invoke (a, Returns) # rest) s) = t_uncaught s
       \<and> throttle_run limit [Invoke (a, Throws)] s =
           s\<lparr>t_calls := t_calls s @ [(t_now s, a)],
             t_uncaught := t_uncaught s @ [(t_now s, a)]\<rparr>"
proof -
  have "throttle_idle s"
    unfolding assms(1) by (rule throttle_idle_run) (simp add: throttle_idle_def throttle_init_def)
  with assms(2) have no: "t_timers s = []"
    by (auto simp: throttle_idle_def split: list.splits)
  let ?s1 = "throttled limit a Returns s"
  have s1: "?s1 = s\<lparr>t_calls := t_calls s @ [(t_now s, a)], inThrottle := True,
                    t_timers := [t_now s + limit]\<rparr>"
    using assms(2) no by (simp add: throttled_def)
  have "t_calls (throttle_run limit rest ?s1) = t_calls ?s1
      \<and> t_uncaught (throttle_run limit rest ?s1) = t_uncaught ?s1"
    by (rule throttle_suppressed) (use assms(3) in \<open>simp_all add: s1\<close>)
  then show ?thesis using assms(2) by (simp add: s1) (simp add: throttled_def)
qed

text \<open>
  A run of C6: the wrapper has fired once and its timeout has run; a new window of 16 ms
  then sees three invocations within 15 ms, of which only the first reaches the callback,
  although the callback would throw on the second.
\<close>

theorem throttle_window_witness:
  "\<not> inThrottle (throttle_run 16 [Invoke (''z'', Returns), Elapse 16]
        (throttle_init :: string throttle_state))
   \<and> elapsed [Elapse 5, Invoke (''b'', Throws), Elapse 10, Invoke (''c'', Returns)] < (16::nat)
   \<and> t_calls (throttle_run 16
        (Invoke (''a'', Returns) # [Elapse 5, Invoke (''b'', Throws), Elapse 10, Invoke (''c'', Returns)])
        (throttle_run 16 [Invoke (''z'', Returns), Elapse 16] throttle_init))
     = [(0, ''z''), (16, ''a'')]
   \<and> t_calls (throttle_run 16 [Invoke (''a'', Throws)]
        (throttle_run 16 [Invoke (''z'', Returns), Elapse 16] throttle_init))
     = [(0, ''z''), (16, ''a'')]
   \<and> \<not> inThrottle (throttle_run 16 [Invoke (''a'', Throws)]
        (throttle_run 16 [Invoke (''z'', Returns), Elapse 16] throttle_init))"
  using throttle_window [of "throttle_run 16 [Invoke (''z'', Returns), Elapse 16] throttle_init" 16
      "[Invoke (''z'', Returns), Elapse 16]"
      "[Elapse 5, Invoke (''b'', Throws), Elapse 10, Invoke (''c'', Returns)]" "''a''"]
  by (simp add: throttle_init_def throttled_def throttle_elapse_def)

text \<open>
  Against C6 as the spec states it: with an interval of 16 ms, three invocations within
  5 ms of which the callback throws on the first. The callback is invoked twice in the
  window, at 0 ms and again at 5 ms; only the third invocation is dropped.
\<close>

theorem throttle_window_counterexample:
  "elapsed [Invoke (''a'', Throws), Elapse 5, Invoke (''b'', Returns), Invoke (''c'', Returns)]
     < (16::nat)
   \<and> t_calls (throttle_run 16
        [Invoke (''a'', Throws), Elapse 5, Invoke (''b'', Returns), Invoke (''c'', Returns)]
        (throttle_init :: string throttle_state))
     = [(0, ''a''), (5, ''b'')]
   \<and> t_uncaught (throttle_run 16
        [Invoke (''a'', Throws), Elapse 5, Invoke (''b'', Returns), Invoke (''c'', Returns)]
        (throttle_init :: string throttle_state))
     = [(0, ''a'')]"
  by (simp add: throttle_init_def throttled_def throttle_elapse_def)

subsection \<open>debounce\<close>

lemma executedFunction_quiet:
  assumes "quiet s"
  shows "executedFunction wait a s =
         s\<lparr>d_timers := [(d_next s, d_now s + wait, a)], d_next := d_next s + 1,
           timeout := Some (d_next s)\<rparr>"
proof -
  have "d_timers (clearTimeout (timeout s) s) = []"
  proof (cases "timeout s")
    case None
    with assms show ?thesis by (cases "d_timers s") (simp_all add: quiet_def clearTimeout_def)
  next
    case (Some i)
    with assms show ?thesis
      by (auto simp: quiet_def clearTimeout_def list_all_iff filter_empty_conv)
  qed
  moreover have "d_next (clearTimeout (timeout s) s) = d_next s"
    "d_now (clearTimeout (timeout s) s) = d_now s"
    by (simp_all add: clearTimeout_def split: option.splits)
  moreover have "clearTimeout (timeout s) s = s\<lparr>d_timers := d_timers (clearTimeout (timeout s) s)\<rparr>"
    by (simp add: clearTimeout_def split: option.splits)
  ultimately show ?thesis
    by (simp add: executedFunction_def setTimeout_def Let_def)
qed

lemma next_due_None: "list_all (\<lambda>tm. t < fst (snd tm)) tms \<Longrightarrow> next_due t tms = None"
  by (induction tms) auto

lemma elapse_to_idle:
  "list_all (\<lambda>tm. t < fst (snd tm)) (d_timers s) \<Longrightarrow>
   debounce_elapse_to t s = s\<lparr>d_now := max t (d_now s)\<rparr>"
  by (subst debounce_elapse_to.simps) (simp add: next_due_None)

lemma elapse_to_fire:
  assumes "d_timers s = [(i, due, a)]" and "timeout s = Some i" and "due \<le> t"
  shows "debounce_elapse_to t s =
         s\<lparr>d_now := max t (max due (d_now s)), d_timers := [],
           d_calls := d_calls s @ [(max due (d_now s), a)]\<rparr>"
proof -
  let ?s1 = "later a (s\<lparr>d_now := max due (d_now s),
                        d_timers := filter (\<lambda>tm. fst tm \<noteq> i) (d_timers s)\<rparr>)"
  have s1: "?s1 = s\<lparr>d_now := max due (d_now s), d_timers := [],
                    d_calls := d_calls s @ [(max due (d_now s), a)]\<rparr>"
    using assms(1,2) by (simp add: later_def clearTimeout_def Let_def)
  have "debounce_elapse_to t s = debounce_elapse_to t ?s1"
    using assms(1,3) by (subst debounce_elapse_to.simps) simp
  also have "\<dots> = ?s1\<lparr>d_now := max t (d_now ?s1)\<rparr>"
    by (rule elapse_to_idle) (simp add: s1)
  finally show ?thesis by (simp add: s1)
qed

text \<open>
  After a burst whose gaps are all shorter than the delay, exactly one timeout is pending:
  the one of the last invocation, due a full delay after it.
\<close>

lemma debounce_pending:
  assumes "quiet s" and "list_all (\<lambda>(a, g). g < wait) xs"
  shows "debounce_run wait (burst xs @ [Invoke a]) s =
         s\<lparr>d_now := d_now s + sum_list (map snd xs),
           d_timers := [(d_next s + length xs, d_now s + sum_list (map snd xs) + wait, a)],
           d_next := d_next s + length xs + 1,
           timeout := Some (d_next s + length xs)\<rparr>"
  using assms
proof (induction xs arbitrary: s)
  case Nil
  then show ?case by (simp add: executedFunction_quiet)
next
  case (Cons x xs)
  obtain b g where x: "x = (b, g)" by (cases x)
  with Cons.prems have g: "g < wait" and rest: "list_all (\<lambda>(a, g). g < wait) xs" by simp_all
  let ?s1 = "executedFunction wait b s"
  have s1: "?s1 = s\<lparr>d_timers := [(d_next s, d_now s + wait, b)], d_next := d_next s + 1,
                    timeout := Some (d_next s)\<rparr>"
    using Cons.prems(1) by (rule executedFunction_quiet)
  let ?s2 = "debounce_elapse g ?s1"
  have s2: "?s2 = ?s1\<lparr>d_now := d_now s + g\<rparr>"
    unfolding debounce_elapse_def using g by (subst elapse_to_idle) (simp_all add: s1)
  have q2: "quiet ?s2" unfolding s2 by (simp add: s1 quiet_def)
  have "debounce_run wait (burst (x # xs) @ [Invoke a]) s =
        debounce_run wait (burst xs @ [Invoke a]) ?s2"
    by (simp add: x)
  also note Cons.IH [OF q2 rest]
  finally show ?case unfolding s2 by (simp add: s1 x add.assoc)
qed

lemma quiet_later: "quiet s \<Longrightarrow> quiet (later a s)"
  by (auto simp: quiet_def later_def clearTimeout_def Let_def list_all_iff split: option.splits)

lemma quiet_elapse_to: "quiet s \<Longrightarrow> quiet (debounce_elapse_to t s)"
proof (induction t s rule: debounce_elapse_to.induct)
  case (1 t s)
  show ?case
  proof (cases "next_due t (d_timers s)")
    case None
    with "1.prems" show ?thesis
      by (subst debounce_elapse_to.simps) (simp add: quiet_def)
  next
    case (Some tm)
    obtain i due a where tm: "tm = (i, due, a)" by (cases tm)
    let ?s0 = "s\<lparr>d_now := max due (d_now s),
                   d_timers := filter (\<lambda>tm. fst tm \<noteq> i) (d_timers s)\<rparr>"
    have "quiet ?s0" using "1.prems" by (auto simp: quiet_def list_all_iff)
    then have "quiet (later a ?s0)" by (rule quiet_later)
    then have "quiet (debounce_elapse_to t (later a ?s0))"
      using Some tm by (intro "1.IH") simp_all
    then show ?thesis
      using Some tm by (subst debounce_elapse_to.simps) simp
  qed
qed

lemma quiet_step: "quiet s \<Longrightarrow> quiet (debounce_step wait e s)"
  by (cases e)
    (simp_all add: executedFunction_quiet debounce_elapse_def quiet_elapse_to,
      simp add: quiet_def)

lemma quiet_run: "quiet s \<Longrightarrow> quiet (debounce_run wait es s)"
  by (induction es arbitrary: s) (simp_all add: quiet_step)

lemma debounce_settled:
  "d_timers s = [] \<Longrightarrow> d_calls (debounce_run wait (map Elapse ds) s) = d_calls s"
  by (induction ds arbitrary: s) (simp_all add: debounce_elapse_def elapse_to_idle)

lemma debounce_run_append:
  "debounce_run wait (es @ es') s = debounce_run wait es' (debounce_run wait es s)"
  by (induction es arbitrary: s) simp_all

text \<open>
  C7. Take any state s the wrapper can reach, and a burst of invocations in which each gap
  between two consecutive invocations is shorter than the delay, the last one made with
  arguments a. At the end of the burst the callback has not been invoked. If less than the
  delay passes after the last invocation it still has not; once the delay has passed, and
  however much time passes afterwards, it has been invoked exactly once more than before
  the burst: with the arguments of the last invocation, a full delay after it.
\<close>

theorem debounce_burst:
  assumes "s = debounce_run wait pre debounce_init"
    and "list_all (\<lambda>(a, g). g < wait) xs"
  shows "d_calls (debounce_run wait (burst xs @ [Invoke a]) s) = d_calls s
       \<and> d_now (debounce_run wait (burst xs @ [Invoke a]) s) = d_now s + sum_list (map snd xs)
       \<and> (d < wait \<longrightarrow>
            d_calls (debounce_run wait (burst xs @ [Invoke a, Elapse d]) s) = d_calls s)
       \<and> (wait \<le> d \<longrightarrow>
            d_calls (debounce_run wait (burst xs @ Invoke a # Elapse d # map Elapse ds) s) =
            d_calls s @ [(d_now s + sum_list (map snd xs) + wait, a)])"
proof -
  have q: "quiet s"
    unfolding assms(1) by (rule quiet_run) (simp add: quiet_def debounce_init_def)
  let ?s' = "debounce_run wait (burst xs @ [Invoke a]) s"
  note s' = debounce_pending [OF q assms(2), of a]
  have c1: "d_calls ?s' = d_calls s" and c2: "d_now ?s' = d_now s + sum_list (map snd xs)"
    by (simp_all add: s')
  have c3: "d_calls (debounce_run wait (burst xs @ [Invoke a, Elapse d]) s) = d_calls s"
    if "d < wait"
  proof -
    have "debounce_run wait (burst xs @ [Invoke a, Elapse d]) s = debounce_elapse d ?s'"
      using debounce_run_append [of wait "burst xs @ [Invoke a]" "[Elapse d]" s] by simp
    also have "\<dots> = ?s'\<lparr>d_now := d_now ?s' + d\<rparr>"
      unfolding debounce_elapse_def using that by (subst elapse_to_idle) (simp_all add: s')
    finally show ?thesis by (simp add: c1)
  qed
  have c4: "d_calls (debounce_run wait (burst xs @ Invoke a # Elapse d # map Elapse ds) s) =
            d_calls s @ [(d_now s + sum_list (map snd xs) + wait, a)]" if "wait \<le> d"
  proof -
    let ?s2 = "debounce_elapse d ?s'"
    have split: "debounce_run wait (burst xs @ Invoke a # Elapse d # map Elapse ds) s =
          debounce_run wait (map Elapse ds) ?s2"
      using debounce_run_append [of wait "burst xs @ [Invoke a]" "Elapse d # map Elapse ds" s]
      by simp
    have fire: "?s2 = ?s'\<lparr>d_now := max (d_now ?s' + d)
                               (max (d_now s + sum_list (map snd xs) + wait) (d_now ?s')),
                    d_timers := [],
                    d_calls := d_calls ?s' @
                      [(max (d_now s + sum_list (map snd xs) + wait) (d_now ?s'), a)]\<rparr>"
      unfolding debounce_elapse_def
      by (rule elapse_to_fire [where i = "d_next s + length xs"]) (use that in \<open>simp_all add: s'\<close>)
    have "d_calls (debounce_run wait (map Elapse ds) ?s2) = d_calls ?s2"
      by (rule debounce_settled) (subst fire, simp)
    also have "\<dots> = d_calls s @ [(d_now s + sum_list (map snd xs) + wait, a)]"
      by (subst fire) (simp add: c1 c2 max_def)
    finally show ?thesis using split by simp
  qed
  from c1 c2 c3 c4 show ?thesis by blast
qed

text \<open>
  A run of C7 with a delay of 250 ms: invocations at 0, 100 and 349 ms; nothing has fired
  at 598 ms, and the callback runs once, at 599 ms, with the last arguments.
\<close>

theorem debounce_burst_witness:
  "list_all (\<lambda>(a, g). g < (250::nat)) [(''a'', 100), (''b'', 249)]
   \<and> d_calls (debounce_run 250 (burst [(''a'', 100), (''b'', 249)] @ [Invoke ''c''])
        (debounce_init :: string debounce_state)) = []
   \<and> d_calls (debounce_run 250 (burst [(''a'', 100), (''b'', 249)] @ [Invoke ''c'', Elapse 249])
        (debounce_init :: string debounce_state)) = []
   \<and> d_calls (debounce_run 250
        (burst [(''a'', 100), (''b'', 249)] @ Invoke ''c'' # Elapse 250 # map Elapse [7, 1000])
        (debounce_init :: string debounce_state)) = [(599, ''c'')]"
  using debounce_burst [of debounce_init 250 "[]" "[(''a'', 100), (''b'', 249)]" "''c''" 249]
    debounce_burst [of debounce_init 250 "[]" "[(''a'', 100), (''b'', 249)]" "''c''" 250 "[7, 1000]"]
  by (simp add: debounce_init_def)

subsection \<open>The counter animation\<close>

text \<open>
  The tick that finds the target reached writes the target, followed by a plus sign only
  when the target is 3, and clears the interval.
\<close>

lemma counter_tick_final:
  assumes "\<bar>target\<bar> \<le> 2 ^ 53" and "round_quotient target 60 0 = Some increment"
    and "double_add (current c) increment = Some cur" and "int_le_double target cur"
  shows "counter_tick target c =
     Some (c\<lparr>current := cur,
             textContent := decimal target @ (if target = 3 then js ''+'' else js ''''),
             timer_running := False\<rparr>)"
  using assms by (simp add: counter_tick_def numberToString_def)

lemma counter_run_stopped: "\<not> timer_running c \<Longrightarrow> counter_run n target c = Some c"
  by (cases n) simp_all

lemma counter_run_next:
  "counter_run n target c = Some c' \<Longrightarrow> timer_running c' \<Longrightarrow>
   counter_run (Suc n) target c = counter_tick target c'"
proof (induction n arbitrary: c)
  case 0
  then show ?case by (simp split: option.splits)
next
  case (Suc n)
  show ?case
  proof (cases "timer_running c")
    case False
    with Suc.prems show ?thesis by simp
  next
    case True
    with Suc.prems obtain c1 where c1: "counter_tick target c = Some c1"
      and run: "counter_run n target c1 = Some c'"
      by (auto split: option.splits)
    from Suc.IH [OF run Suc.prems(2)] True c1 show ?thesis by simp
  qed
qed

lemma counter_run_ended:
  "counter_run n target c = Some c' \<Longrightarrow> \<not> timer_running c' \<Longrightarrow>
   counter_run (n + k) target c = Some c'"
proof (induction n arbitrary: c)
  case 0
  then show ?case by (simp add: counter_run_stopped)
next
  case (Suc n)
  show ?case
  proof (cases "timer_running c")
    case False
    with Suc.prems show ?thesis by simp
  next
    case True
    with Suc.prems obtain c1 where c1: "counter_tick target c = Some c1"
      and run: "counter_run n target c1 = Some c'"
      by (auto split: option.splits)
    from Suc.IH [OF run Suc.prems(2)] True c1 show ?thesis by simp
  qed
qed

text \<open>
  The animation of a target of 25, tick by tick in doubles: after 59 ticks \<open>current\<close>
  is 24.58333333333335 and the element reads \<open>24+\<close>.
\<close>

lemma run_25_59:
  "counter_run 59 25 (animateCounter (js ''25+'')) =
     Some \<lparr>current = \<lparr>mantissa = 6919593177470298, exponent = - 48\<rparr>,
           textContent = js ''24+'', timer_running = True\<rparr>"
  by code_simp

lemma tick_25_60:
  "counter_tick 25 \<lparr>current = \<lparr>mantissa = 6919593177470298, exponent = - 48\<rparr>,
                    textContent = js ''24+'', timer_running = True\<rparr> =
     Some \<lparr>current = \<lparr>mantissa = 7036874417766405, exponent = - 48\<rparr>,
           textContent = js ''25'', timer_running = False\<rparr>"
  by code_simp

text \<open>
  The targets 3 and 10 in doubles: rounding leaves \<open>current\<close> just below the target
  after 60 ticks, so the 61st tick is the last; they end as \<open>3+\<close> and \<open>10\<close>.
\<close>

lemma run_3_60:
  "counter_run 60 3 (animateCounter (js ''3+'')) =
     Some \<lparr>current = \<lparr>mantissa = 6755399441055738, exponent = - 51\<rparr>,
           textContent = js ''2'', timer_running = True\<rparr>"
  by code_simp

lemma tick_3_61:
  "counter_tick 3 \<lparr>current = \<lparr>mantissa = 6755399441055738, exponent = - 51\<rparr>,
                   textContent = js ''2'', timer_running = True\<rparr> =
     Some \<lparr>current = \<lparr>mantissa = 6867989431740000, exponent = - 51\<rparr>,
           textContent = js ''3+'', timer_running = False\<rparr>"
  by code_simp

lemma run_10_60:
  "counter_run 60 10 (animateCounter (js ''10'')) =
     Some \<lparr>current = \<lparr>mantissa = 5629499534213119, exponent = - 49\<rparr>,
           textContent = js ''9'', timer_running = True\<rparr>"
  by code_simp

lemma tick_10_61:
  "counter_tick 10 \<lparr>current = \<lparr>mantissa = 5629499534213119, exponent = - 49\<rparr>,
                    textContent = js ''9'', timer_running = True\<rparr> =
     Some \<lparr>current = \<lparr>mantissa = 5723324526450004, exponent = - 49\<rparr>,
           textContent = js ''10'', timer_running = False\<rparr>"
  by code_simp

lemma animateCounter_three_ten:
  "map_option textContent (counter_run (61 + n) 3 (animateCounter (js ''3+''))) = Some (js ''3+'')
   \<and> map_option textContent (counter_run (61 + n) 10 (animateCounter (js ''10''))) = Some (js ''10'')"
proof -
  have "counter_run (Suc 60) 3 (animateCounter (js ''3+'')) =
      Some \<lparr>current = \<lparr>mantissa = 6867989431740000, exponent = - 51\<rparr>,
            textContent = js ''3+'', timer_running = False\<rparr>"
    using counter_run_next [OF run_3_60] tick_3_61 by simp
  from counter_run_ended [OF this, of n]
  have three: "map_option textContent (counter_run (61 + n) 3 (animateCounter (js ''3+'')))
      = Some (js ''3+'')"
    by simp
  have "counter_run (Suc 60) 10 (animateCounter (js ''10'')) =
      Some \<lparr>current = \<lparr>mantissa = 5723324526450004, exponent = - 49\<rparr>,
            textContent = js ''10'', timer_running = False\<rparr>"
    using counter_run_next [OF run_10_60] tick_10_61 by simp
  from counter_run_ended [OF this, of n]
  have ten: "map_option textContent (counter_run (61 + n) 10 (animateCounter (js ''10'')))
      = Some (js ''10'')"
    by simp
  from three ten show ?thesis by simp
qed

text \<open>
  C1, where the code departs from it. A stat element that reads \<open>25+\<close> has the target
  25. After 59 ticks it reads \<open>24+\<close>, written by the branch of line 233 with the plus
  sign of a target above 10; the 60th tick finds the target reached and writes \<open>25\<close>
  through line 230, which appends the plus sign for the target 3 only, and clears the
  interval. The element keeps reading \<open>25\<close>, not \<open>25+\<close>, however many ticks follow.
\<close>

theorem animateCounter_drops_plus:
  "map_option textContent (counter_run 59 25 (animateCounter (js ''25+''))) = Some (js ''24+'')
   \<and> map_option textContent (counter_run (60 + n) 25 (animateCounter (js ''25+''))) = Some (js ''25'')
   \<and> map_option timer_running (counter_run (60 + n) 25 (animateCounter (js ''25+''))) = Some False
   \<and> js ''25'' \<noteq> js ''25+''"
proof -
  have "counter_run (Suc 59) 25 (animateCounter (js ''25+'')) =
      Some \<lparr>current = \<lparr>mantissa = 7036874417766405, exponent = - 48\<rparr>,
            textContent = js ''25'', timer_running = False\<rparr>"
    using counter_run_next [OF run_25_59] tick_25_60 by simp
  from counter_run_ended [OF this, of n]
  have "counter_run (60 + n) 25 (animateCounter (js ''25+'')) =
      Some \<lparr>current = \<lparr>mantissa = 7036874417766405, exponent = - 48\<rparr>,
            textContent = js ''25'', timer_running = False\<rparr>"
    by simp
  then show ?thesis by (simp add: run_25_59) (simp add: js_def)
qed

subsection \<open>Navigation\<close>

text \<open>Marking for a second section undoes the marking for the first.\<close>

lemma mark_link_twice: "mark_link b (mark_link a link) = mark_link b link"
  by (simp add: mark_link_def Let_def)

lemma mark_link_active:
  "(''active'' \<in> link_classList (mark_link sid link)) = (href link = Some (js ''#'' @ sid))"
  "href (mark_link sid link) = href link"
  by (simp_all add: mark_link_def Let_def)

lemma mark_link_others:
  "link_classList (mark_link sid link) - {''active''} = link_classList link - {''active''}"
  by (auto simp: mark_link_def Let_def)

text \<open>
  The loop over the sections leaves the links as the last section in the span marked
  them, or untouched when no section is in the span.
\<close>

lemma scan_sections_last:
  "scan_sections pos sections nav =
     (case filter (in_span pos) sections of
        [] \<Rightarrow> nav
      | _ \<Rightarrow> nav\<lparr>navLinks :=
                map (mark_link (el_id (last (filter (in_span pos) sections)))) (navLinks nav)\<rparr>)"
proof (induction sections rule: rev_induct)
  case Nil
  then show ?case by (simp add: scan_sections_def)
next
  case (snoc s sections)
  have step: "scan_sections pos (sections @ [s]) nav =
        (if in_span pos s
         then (scan_sections pos sections nav)\<lparr>navLinks :=
                map (mark_link (el_id s)) (navLinks (scan_sections pos sections nav))\<rparr>
         else scan_sections pos sections nav)"
    by (simp add: scan_sections_def)
  show ?case
    unfolding step snoc.IH
    by (cases "filter (in_span pos) sections") (simp_all add: mark_link_twice comp_def)
qed

lemma updateActiveLink_scan:
  "updateActiveLink sections scrollY nav = scan_sections (scrollY + 100) sections nav"
  by (simp add: updateActiveLink_def scan_sections_def Let_def)

text \<open>
  C2, as the code has it. When no section's span from top to top + height (the end
  excluded) contains scrollY + 100, updateActiveLink changes nothing. Otherwise every link
  is marked for the last such section in document order: a link is active afterwards
  exactly when its href is \<open>#\<close> followed by that section's id, and its other classes and
  its href are as before. So exactly one link is active when exactly one link targets that
  section, and none when none does.
\<close>

theorem updateActiveLink_last:
  "(filter (in_span (scrollY + 100)) sections = [] \<longrightarrow>
      updateActiveLink sections scrollY nav = nav)
   \<and> (filter (in_span (scrollY + 100)) sections \<noteq> [] \<longrightarrow>
      updateActiveLink sections scrollY nav =
        nav\<lparr>navLinks :=
              map (mark_link (el_id (last (filter (in_span (scrollY + 100)) sections))))
                  (navLinks nav)\<rparr>)
   \<and> (''active'' \<in> link_classList (mark_link sid link)) = (href link = Some (js ''#'' @ sid))
   \<and> link_classList (mark_link sid link) - {''active''} = link_classList link - {''active''}
   \<and> href (mark_link sid link) = href link"
proof -
  have a: "filter (in_span (scrollY + 100)) sections = [] \<longrightarrow>
      updateActiveLink sections scrollY nav = nav"
    and b: "filter (in_span (scrollY + 100)) sections \<noteq> [] \<longrightarrow>
      updateActiveLink sections scrollY nav =
        nav\<lparr>navLinks :=
              map (mark_link (el_id (last (filter (in_span (scrollY + 100)) sections))))
                  (navLinks nav)\<rparr>"
    by (simp_all add: updateActiveLink_scan scan_sections_last split: list.splits)
  from a b show ?thesis by (simp add: mark_link_active mark_link_others)
qed

text \<open>
  C2 on a page with two sections that overlap between 500 and 600 and a link for each: at
  scroll offset 450 both spans contain 550 and the link of the second section is marked; at
  scroll offset 2000 no span contains 2100 and nothing changes.
\<close>

theorem updateActiveLink_last_witness:
  "filter (in_span (450 + 100)) overlap_sections \<noteq> []
   \<and> updateActiveLink overlap_sections 450 two_links =
       two_links\<lparr>navLinks := map (mark_link (js ''about'')) (navLinks two_links)\<rparr>
   \<and> filter (in_span (2000 + 100)) overlap_sections = []
   \<and> updateActiveLink overlap_sections 2000 two_links = two_links"
  using updateActiveLink_last [of 450 overlap_sections two_links]
    updateActiveLink_last [of 2000 overlap_sections two_links]
  by (simp add: overlap_sections_def in_span_def js_def)

text \<open>
  Against C2 as the spec states it. On the page with the two overlapping sections, at
  scroll offset 450 the first section whose span contains 550 is \<open>home\<close>, yet the link
  left active is the one of \<open>about\<close>, the last such section. On a page whose only
  section has no link, no link is active after the call, although the link of \<open>home\<close>
  was active before it.
\<close>

theorem updateActiveLink_counterexample:
  "map el_id (filter (in_span (450 + 100)) overlap_sections) = [js ''home'', js ''about'']
   \<and> map href (navLinks two_links) = [Some (js ''#home''), Some (js ''#about'')]
   \<and> map (\<lambda>l. ''active'' \<in> link_classList l)
        (navLinks (updateActiveLink overlap_sections 450 two_links)) = [False, True]
   \<and> map el_id (filter (in_span (0 + 100)) unlinked_sections) = [js ''contact'']
   \<and> map (\<lambda>l. ''active'' \<in> link_classList l) (navLinks two_links) = [True, False]
   \<and> map (\<lambda>l. ''active'' \<in> link_classList l)
        (navLinks (updateActiveLink unlinked_sections 0 two_links)) = [False, False]"
  by (simp add: overlap_sections_def unlinked_sections_def two_links_def updateActiveLink_def
      in_span_def mark_link_def Let_def js_def)




lemma updateActiveLink_navbar:
  "navbar_classList (updateActiveLink sections y nav) = navbar_classList nav"
  unfolding updateActiveLink_def Let_def
  by (induction sections arbitrary: nav) simp_all

text \<open>
  C9. After the scroll callback of the navigation has run at scroll offset y, the nav bar
  has the class \<open>scrolled\<close> exactly when y exceeds 50, its other classes unchanged;
  after toggleButton has run, the button is visible with opacity 1 exactly when y exceeds
  300, and hidden with opacity 0 otherwise. A jump from 0 to 400 adds the class and makes
  the button visible.
\<close>

theorem scroll_thresholds:
  "(''scrolled'' \<in> navbar_classList (navigation_onScroll sections y nav)) = (50 < y)
   \<and> navbar_classList (navigation_onScroll sections y nav) - {''scrolled''}
       = navbar_classList nav - {''scrolled''}
   \<and> (visibility (toggleButton y button) = ''visible'') = (300 < y)
   \<and> (visibility (toggleButton y button) = ''hidden'') = (\<not> 300 < y)
   \<and> (opacity (toggleButton y button) = ''1'') = (300 < y)
   \<and> (opacity (toggleButton y button) = ''0'') = (\<not> 300 < y)
   \<and> ''scrolled'' \<notin> navbar_classList (navigation_onScroll sections 0 nav)
   \<and> ''scrolled'' \<in> navbar_classList
        (navigation_onScroll sections 400 (navigation_onScroll sections 0 nav))
   \<and> visibility (toggleButton 0 createButton) = ''hidden''
   \<and> visibility (toggleButton 400 (toggleButton 0 createButton)) = ''visible''"
  by (auto simp: navigation_onScroll_def updateActiveLink_navbar handleScroll_def
      classList_force_def toggleButton_def Let_def)

text \<open>C9 at the two thresholds and just above them.\<close>

theorem scroll_thresholds_witness:
  "''scrolled'' \<notin> navbar_classList (navigation_onScroll overlap_sections 50 two_links)
   \<and> ''scrolled'' \<in> navbar_classList (navigation_onScroll overlap_sections (101 / 2) two_links)
   \<and> visibility (toggleButton 300 createButton) = ''hidden''
   \<and> visibility (toggleButton 301 createButton) = ''visible''"
  using scroll_thresholds [of overlap_sections 50 two_links createButton]
    scroll_thresholds [of overlap_sections "101 / 2" two_links createButton]
    scroll_thresholds [of overlap_sections 300 two_links createButton]
    scroll_thresholds [of overlap_sections 301 two_links createButton]
  by simp

subsection \<open>The email pattern\<close>

lemma regex_test_once:
  "regex_test ((cls, Once) # p) s \<longleftrightarrow>
   (\<exists>c cs. s = c # cs \<and> class_matches cls c \<and> regex_test p cs)"
  by (cases s) simp_all

text \<open>
  An item quantified with \<open>+\<close> takes a non-empty prefix of characters of its class.
\<close>

lemma regex_test_plus:
  "regex_test ((cls, OneOrMore) # p) s \<longleftrightarrow>
   (\<exists>u w. s = u @ w \<and> u \<noteq> [] \<and> list_all (class_matches cls) u \<and> regex_test p w)"
proof (induction s)
  case Nil
  then show ?case by simp
next
  case (Cons c cs)
  show ?case
  proof
    assume "regex_test ((cls, OneOrMore) # p) (c # cs)"
    then have c: "class_matches cls c"
      and alt: "regex_test ((cls, OneOrMore) # p) cs \<or> regex_test p cs" by simp_all
    from alt show "\<exists>u w. c # cs = u @ w \<and> u \<noteq> [] \<and> list_all (class_matches cls) u
        \<and> regex_test p w"
    proof
      assume "regex_test ((cls, OneOrMore) # p) cs"
      with Cons.IH obtain u w where "cs = u @ w" "list_all (class_matches cls) u" "regex_test p w"
        by blast
      with c have "c # cs = (c # u) @ w \<and> c # u \<noteq> [] \<and> list_all (class_matches cls) (c # u)
          \<and> regex_test p w"
        by simp
      then show ?thesis by blast
    next
      assume "regex_test p cs"
      with c have "c # cs = [c] @ cs \<and> [c] \<noteq> [] \<and> list_all (class_matches cls) [c]
          \<and> regex_test p cs"
        by simp
      then show ?thesis by blast
    qed
  next
    assume "\<exists>u w. c # cs = u @ w \<and> u \<noteq> [] \<and> list_all (class_matches cls) u \<and> regex_test p w"
    then obtain u w where eq: "c # cs = u @ w" and ne: "u \<noteq> []"
      and all: "list_all (class_matches cls) u" and rest: "regex_test p w" by blast
    from ne obtain u' where u: "u = c # u'" using eq by (cases u) simp_all
    with eq have cs: "cs = u' @ w" by simp
    from all u have c: "class_matches cls c" and all': "list_all (class_matches cls) u'"
      by simp_all
    show "regex_test ((cls, OneOrMore) # p) (c # cs)"
    proof (cases "u' = []")
      case True
      with cs rest c show ?thesis by simp
    next
      case False
      with cs all' rest Cons.IH have "regex_test ((cls, OneOrMore) # p) cs" by blast
      with c show ?thesis by simp
    qed
  qed
qed

lemma class_matches_address:
  "class_matches (NoneOf [ClassSpace, ClassChar 0x40]) = address_char"
  by (rule ext) (simp add: address_char_def)

text \<open>The pattern of line 292 accepts exactly the strings of the email shape.\<close>

lemma emailRegex_shape: "regex_test emailRegex v \<longleftrightarrow> email_shape v"
proof
  assume "regex_test emailRegex v"
  then obtain l r1 where v: "v = l @ r1" and l: "l \<noteq> []" "list_all address_char l"
    and r1: "regex_test [(Literal 0x40, Once),
      (NoneOf [ClassSpace, ClassChar 0x40], OneOrMore), (Literal 0x2E, Once),
      (NoneOf [ClassSpace, ClassChar 0x40], OneOrMore)] r1"
    unfolding emailRegex_def regex_test_plus class_matches_address by auto
  from r1 obtain r2 where r1eq: "r1 = 0x40 # r2"
    and r2: "regex_test [(NoneOf [ClassSpace, ClassChar 0x40], OneOrMore), (Literal 0x2E, Once),
      (NoneOf [ClassSpace, ClassChar 0x40], OneOrMore)] r2"
    unfolding regex_test_once by auto
  from r2 obtain d r3 where r2eq: "r2 = d @ r3" and d: "d \<noteq> []" "list_all address_char d"
    and r3: "regex_test [(Literal 0x2E, Once), (NoneOf [ClassSpace, ClassChar 0x40], OneOrMore)] r3"
    unfolding regex_test_plus class_matches_address by auto
  from r3 obtain r4 where r3eq: "r3 = 0x2E # r4"
    and r4: "regex_test [(NoneOf [ClassSpace, ClassChar 0x40], OneOrMore)] r4"
    unfolding regex_test_once by auto
  from r4 have t: "r4 \<noteq> []" "list_all address_char r4"
    unfolding regex_test_plus class_matches_address by auto
  have "v = l @ [0x40] @ d @ [0x2E] @ r4" by (simp add: v r1eq r2eq r3eq)
  with l d t show "email_shape v" unfolding email_shape_def by blast
next
  assume "email_shape v"
  then obtain l d t where v: "v = l @ [0x40] @ d @ [0x2E] @ t"
    and ne: "l \<noteq> []" "d \<noteq> []" "t \<noteq> []"
    and ok: "list_all address_char l" "list_all address_char d" "list_all address_char t"
    unfolding email_shape_def by blast
  have t: "regex_test [(NoneOf [ClassSpace, ClassChar 0x40], OneOrMore)] t"
    unfolding regex_test_plus class_matches_address
    using ne(3) ok(3) by (intro exI [of _ t] exI [of _ "[]"]) simp
  then have r3: "regex_test [(Literal 0x2E, Once),
      (NoneOf [ClassSpace, ClassChar 0x40], OneOrMore)] (0x2E # t)"
    by simp
  have r2: "regex_test [(NoneOf [ClassSpace, ClassChar 0x40], OneOrMore), (Literal 0x2E, Once),
      (NoneOf [ClassSpace, ClassChar 0x40], OneOrMore)] (d @ 0x2E # t)"
    unfolding regex_test_plus [of _ "[(Literal 0x2E, Once),
      (NoneOf [ClassSpace, ClassChar 0x40], OneOrMore)]"] class_matches_address
    using ne(2) ok(2) r3 by (intro exI [of _ d] exI [of _ "0x2E # t"]) simp
  then have r1: "regex_test [(Literal 0x40, Once),
      (NoneOf [ClassSpace, ClassChar 0x40], OneOrMore), (Literal 0x2E, Once),
      (NoneOf [ClassSpace, ClassChar 0x40], OneOrMore)] (0x40 # d @ 0x2E # t)"
    by simp
  have "regex_test emailRegex (l @ 0x40 # d @ 0x2E # t)"
    unfolding emailRegex_def
      regex_test_plus [of _ "[(Literal 0x40, Once),
      (NoneOf [ClassSpace, ClassChar 0x40], OneOrMore), (Literal 0x2E, Once),
      (NoneOf [ClassSpace, ClassChar 0x40], OneOrMore)]"] class_matches_address
    using ne(1) ok(1) r1 by (intro exI [of _ l] exI [of _ "0x40 # d @ 0x2E # t"]) simp
  then show "regex_test emailRegex v" by (simp add: v)
qed

subsection \<open>Field validation\<close>

text \<open>
  C3. validateField trims the value of the field. If nothing is left, the field is invalid
  and the error shown is \<open>This field is required\<close>. Otherwise a field of type email is
  valid exactly when the trimmed value has the email shape, and when it has not the error
  shown is \<open>Please enter a valid email address\<close>, a different message; a field of any
  other type is valid. A valid field has its error cleared. Showing an error puts the
  message last below the parent of the field and gives the field the class error, clearing
  takes the class away.
\<close>

theorem validateField_rule:
  "(trim (field_value (elems p f)) = [] \<longrightarrow>
      validateField f p = (False, showFieldError f (js ''This field is required'') p))
   \<and> (trim (field_value (elems p f)) \<noteq> [] \<and> field_type (elems p f) = js ''email''
        \<and> email_shape (trim (field_value (elems p f))) \<longrightarrow>
      validateField f p = (True, clearFieldError f p))
   \<and> (trim (field_value (elems p f)) \<noteq> [] \<and> field_type (elems p f) = js ''email''
        \<and> \<not> email_shape (trim (field_value (elems p f))) \<longrightarrow>
      validateField f p = (False, showFieldError f (js ''Please enter a valid email address'') p))
   \<and> (trim (field_value (elems p f)) \<noteq> [] \<and> field_type (elems p f) \<noteq> js ''email'' \<longrightarrow>
      validateField f p = (True, clearFieldError f p))
   \<and> last (field_errors (showFieldError f m p) (parentNode (elems p f))) = m
   \<and> ''error'' \<in> field_classList (elems (showFieldError f m p) f)
   \<and> ''error'' \<notin> field_classList (elems (clearFieldError f p) f)
   \<and> js ''This field is required'' \<noteq> js ''Please enter a valid email address''"
  by (simp add: validateField_def Let_def emailRegex_shape showFieldError_def clearFieldError_def
      js_def)

text \<open>
  C3 on a form with four fields: a blank text field, an email field holding \<open>a@b.c\<close>,
  an email field holding \<open>not-an-email\<close>, and a text field holding \<open>Hello\<close>.
\<close>

theorem validateField_rule_witness:
  "validateField 0 (example_form [0, 2, 3, 4])
     = (False, showFieldError 0 (js ''This field is required'') (example_form [0, 2, 3, 4]))
   \<and> validateField 2 (example_form [0, 2, 3, 4])
     = (True, clearFieldError 2 (example_form [0, 2, 3, 4]))
   \<and> validateField 3 (example_form [0, 2, 3, 4])
     = (False, showFieldError 3 (js ''Please enter a valid email address'')
                (example_form [0, 2, 3, 4]))
   \<and> validateField 4 (example_form [0, 2, 3, 4])
     = (True, clearFieldError 4 (example_form [0, 2, 3, 4]))
   \<and> field_errors (snd (validateField 3 (example_form [0, 2, 3, 4]))) 3
     = [js ''Please enter a valid email address'']"
proof -
  let ?F = "example_form [0, 2, 3, 4]"
  have t0: "trim (field_value (elems ?F 0)) = []"
    by (simp add: example_form_def example_field_def trim_def js_def isWhiteSpace_def)
  have t2: "trim (field_value (elems ?F 2)) = js ''a@b.c''"
    and t3: "trim (field_value (elems ?F 3)) = js ''not-an-email''"
    and t4: "trim (field_value (elems ?F 4)) = js ''Hello''"
    by (simp_all add: example_form_def example_field_def trim_def js_def isWhiteSpace_def)
  have ty: "field_type (elems ?F 2) = js ''email''" "field_type (elems ?F 3) = js ''email''"
    "field_type (elems ?F 4) \<noteq> js ''email''"
    by (simp_all add: example_form_def example_field_def js_def)
  have ne: "js ''a@b.c'' \<noteq> []" "js ''not-an-email'' \<noteq> []" "js ''Hello'' \<noteq> []"
    by (simp_all add: js_def)
  have e2: "email_shape (js ''a@b.c'')"
    unfolding emailRegex_shape [symmetric]
    by (simp add: emailRegex_def js_def isWhiteSpace_def)
  have e3: "\<not> email_shape (js ''not-an-email'')"
    unfolding emailRegex_shape [symmetric]
    by (simp add: emailRegex_def js_def isWhiteSpace_def)
  have shown: "field_errors (showFieldError 3 (js ''Please enter a valid email address'') ?F) 3
      = [js ''Please enter a valid email address'']"
    by (simp add: showFieldError_def clearFieldError_def Let_def example_form_def
        example_field_def)
  show ?thesis
    using validateField_rule [of ?F 0 "js ''x''"] validateField_rule [of ?F 2 "js ''x''"]
      validateField_rule [of ?F 3 "js ''x''"] validateField_rule [of ?F 4 "js ''x''"]
    by (simp add: t0 t2 t3 t4 ty ne e2 e3 shown)
qed

subsection \<open>The error element of a field\<close>

lemma single_error_clear:
  "length (field_errors p (parentNode (elems p f))) \<le> 1 \<Longrightarrow> single_error f (clearFieldError f p)"
  by (auto simp: single_error_def clearFieldError_def Let_def split: list.splits)

lemma single_error_show:
  "length (field_errors p (parentNode (elems p f))) \<le> 1 \<Longrightarrow>
   single_error f (showFieldError f m p)"
  by (auto simp: single_error_def showFieldError_def clearFieldError_def Let_def
      split: list.splits)

lemma single_error_op:
  assumes "single_error f p"
  shows "single_error f (apply_field_op f op p)"
proof -
  from assms have le: "length (field_errors p (parentNode (elems p f))) \<le> 1"
    by (simp add: single_error_def)
  show ?thesis
  proof (cases op)
    case Validate
    with le show ?thesis
      by (simp add: validateField_def Let_def single_error_clear single_error_show)
  next
    case (ShowError m)
    with le show ?thesis by (simp add: single_error_show)
  next
    case ClearError
    with le show ?thesis by (simp add: single_error_clear)
  next
    case (SetValue v)
    with assms show ?thesis by (simp add: single_error_def)
  qed
qed

lemma single_error_ops: "single_error f p \<Longrightarrow> single_error f (apply_field_ops f ops p)"
  unfolding apply_field_ops_def
  by (induction ops arbitrary: p) (simp_all add: single_error_op)

text \<open>
  C10. Start from a field without the class error whose parent holds no error element, and
  apply to that field any finite sequence of validations, shown errors, cleared errors and
  edits of its value. Afterwards the parent holds at most one error element, and it holds
  exactly one if and only if the field has the class error.
\<close>

theorem single_error_invariant:
  assumes "''error'' \<notin> field_classList (elems p f)"
    and "field_errors p (parentNode (elems p f)) = []"
  shows "length (field_errors (apply_field_ops f ops p)
                  (parentNode (elems (apply_field_ops f ops p) f))) \<le> 1
       \<and> (length (field_errors (apply_field_ops f ops p)
                    (parentNode (elems (apply_field_ops f ops p) f))) = 1)
         = (''error'' \<in> field_classList (elems (apply_field_ops f ops p) f))"
proof -
  have "single_error f p" using assms by (simp add: single_error_def)
  then have "single_error f (apply_field_ops f ops p)" by (rule single_error_ops)
  then show ?thesis by (simp add: single_error_def)
qed

text \<open>
  C10 on the email field holding \<open>not-an-email\<close>: validated twice, given another error
  by hand, corrected and validated again, then given an error once more.
\<close>

theorem single_error_invariant_witness:
  "''error'' \<notin> field_classList (elems (example_form [0, 2, 3, 4]) 3)
   \<and> field_errors (example_form [0, 2, 3, 4]) (parentNode (elems (example_form [0, 2, 3, 4]) 3)) = []
   \<and> single_error 3
       (apply_field_ops 3
         [Validate, Validate, ShowError (js ''x''), SetValue (js ''a@b.c''), Validate,
          ShowError (js ''y'')]
         (example_form [0, 2, 3, 4]))"
  using single_error_invariant [of "example_form [0, 2, 3, 4]" 3
      "[Validate, Validate, ShowError (js ''x''), SetValue (js ''a@b.c''), Validate,
        ShowError (js ''y'')]"]
  by (simp add: single_error_def example_form_def example_field_def)

subsection \<open>The mailto link\<close>

lemma encodeURIComponent_scalar:
  "list_all isScalarValue s \<Longrightarrow> encodeURIComponent s = Inr (percentEncode s)"
  by (induction s) (simp_all add: percentEncode_def)

lemma percentEncode_append: "percentEncode (a @ b) = percentEncode a @ percentEncode b"
  by (simp add: percentEncode_def)

lemma scalar_js: "list_all isScalarValue (js s)"
  unfolding js_def list_all_iff
proof
  fix c :: nat assume "c \<in> set (map of_char s)"
  then obtain x :: char where "c = of_char x" by auto
  moreover have "of_char x < (256::nat)" by (rule nat_of_char_less_256)
  ultimately show "isScalarValue c" unfolding isScalarValue_def by linarith
qed

text \<open>
  With a submit button in the form and no unpaired surrogate in the subject line and the
  body, sendEmail returns normally, with the button in its sending state, the location set
  to the link and the reset scheduled after 1000 ms.
\<close>

lemma sendEmail_scalar:
  assumes "submitButton p = Some submit"
    and "list_all isScalarValue (mailSubject data)" and "list_all isScalarValue (mailBody data)"
  shows "sendEmail data p =
     Inr (p\<lparr>submitButton := Some (submit\<lparr>
                innerHTML := js ''<i class='' @ [0x22] @ js ''fas fa-spinner fa-spin'' @ [0x22]
                             @ js ''></i> Sending...'',
                disabled := True\<rparr>),
            location_href :=
              js ''mailto:saikumarpolavaram@outlook.com?subject='' @ percentEncode (mailSubject data)
              @ js ''&body='' @ percentEncode (mailBody data),
            timeouts := timeouts p @ [(1000, ResetForm (innerHTML submit))]\<rparr>)"
  using assms(1) encodeURIComponent_scalar [OF assms(2)] encodeURIComponent_scalar [OF assms(3)]
  by (simp add: sendEmail_def Let_def)

lemma mailBody_scalar:
  assumes "data (js ''name'') = Some name" and "data (js ''email'') = Some email"
    and "data (js ''subject'') = Some subject" and "data (js ''message'') = Some message"
    and "list_all isScalarValue name" and "list_all isScalarValue email"
    and "list_all isScalarValue subject" and "list_all isScalarValue message"
  shows "list_all isScalarValue (mailSubject data)" and "list_all isScalarValue (mailBody data)"
proof -
  have nl: "list_all isScalarValue [0xA]" "list_all isScalarValue [0xA, 0xA]"
    by (simp_all add: isScalarValue_def)
  show "list_all isScalarValue (mailSubject data)"
    using assms(3,7) scalar_js by (simp add: mailSubject_def interpolate_def)
  show "list_all isScalarValue (mailBody data)"
    using assms scalar_js nl by (simp add: mailBody_def interpolate_def)
qed

text \<open>
  C5. Let the data hold the four values name, email, subject and message, none with an
  unpaired surrogate (FormData converts the values it reads from a form to scalar value
  strings), and let the form have its submit button.
  Then sendEmail returns normally and the location it sets is the link to the fixed
  recipient, followed by \<open>?subject=\<close> and the percent-encoding of \<open>Portfolio Contact: \<close>
  and the subject, followed by \<open>&body=\<close> and the percent-encoding of the body. The
  encoded body is the encoded name, email, subject and message in this order, each after
  the encoded label of the template and the last followed by the encoded end of the
  template.
\<close>

theorem sendEmail_mailto:
  assumes "submitButton p = Some submit"
    and "data (js ''name'') = Some name" and "data (js ''email'') = Some email"
    and "data (js ''subject'') = Some subject" and "data (js ''message'') = Some message"
    and "list_all isScalarValue name" and "list_all isScalarValue email"
    and "list_all isScalarValue subject" and "list_all isScalarValue message"
  shows "\<exists>p'. sendEmail data p = Inr p'
       \<and> location_href p' =
           js ''mailto:saikumarpolavaram@outlook.com'' @
           js ''?subject='' @ percentEncode (js ''Portfolio Contact: '' @ subject) @
           js ''&body='' @ percentEncode (mailBody data)
       \<and> percentEncode (js ''Portfolio Contact: '' @ subject) =
           js ''Portfolio%20Contact%3A%20'' @ percentEncode subject
       \<and> percentEncode (mailBody data) =
           js ''%0AName%3A%20'' @ percentEncode name @
           js ''%0AEmail%3A%20'' @ percentEncode email @
           js ''%0ASubject%3A%20'' @ percentEncode subject @
           js ''%0A%0AMessage%3A%0A'' @ percentEncode message @
           js ''%0A%20%20%20%20''"
proof -
  have subj: "mailSubject data = js ''Portfolio Contact: '' @ subject"
    by (simp add: mailSubject_def interpolate_def assms(4))
  have body: "mailBody data =
      ([0xA] @ js ''Name: '') @ name @ ([0xA] @ js ''Email: '') @ email @
      ([0xA] @ js ''Subject: '') @ subject @ ([0xA, 0xA] @ js ''Message:'' @ [0xA]) @ message @
      ([0xA] @ js ''    '')"
    by (simp add: mailBody_def interpolate_def assms(2-5))
  note sc = mailBody_scalar [OF assms(2-9)]
  have e2: "percentEncode (mailBody data) =
           js ''%0AName%3A%20'' @ percentEncode name @
           js ''%0AEmail%3A%20'' @ percentEncode email @
           js ''%0ASubject%3A%20'' @ percentEncode subject @
           js ''%0A%0AMessage%3A%0A'' @ percentEncode message @
           js ''%0A%20%20%20%20''"
    unfolding body
    by (simp add: percentEncode_def encodeCodePoint_def uriUnreserved_def utf8_def
        percentByte_def hexDigit_def js_def)
  have e1: "percentEncode (js ''Portfolio Contact: '' @ subject) =
           js ''Portfolio%20Contact%3A%20'' @ percentEncode subject"
    by (simp add: percentEncode_def encodeCodePoint_def uriUnreserved_def utf8_def
        percentByte_def hexDigit_def js_def)
  have "\<exists>p'. sendEmail data p = Inr p'
       \<and> location_href p' =
           js ''mailto:saikumarpolavaram@outlook.com'' @
           js ''?subject='' @ percentEncode (js ''Portfolio Contact: '' @ subject) @
           js ''&body='' @ percentEncode (mailBody data)"
    using sendEmail_scalar [OF assms(1) sc] by (simp add: subj js_def)
  with e1 e2 show ?thesis by blast
qed

text \<open>
  C5 on the example of the spec: name A, email a@b.com, subject Hi and message Test give
  the link below.
\<close>

theorem sendEmail_mailto_witness:
  "\<exists>p'. sendEmail example_data (example_form [2, 4]) = Inr p'
     \<and> location_href p' =
         js ''mailto:saikumarpolavaram@outlook.com?subject=Portfolio%20Contact%3A%20Hi''
         @ js ''&body=%0AName%3A%20A%0AEmail%3A%20a%40b.com%0ASubject%3A%20Hi''
         @ js ''%0A%0AMessage%3A%0ATest%0A%20%20%20%20''"
proof -
  have sc: "list_all isScalarValue (js ''A'')" "list_all isScalarValue (js ''a@b.com'')"
    "list_all isScalarValue (js ''Hi'')" "list_all isScalarValue (js ''Test'')"
    by (rule scalar_js)+
  have d: "example_data (js ''name'') = Some (js ''A'')"
    "example_data (js ''email'') = Some (js ''a@b.com'')"
    "example_data (js ''subject'') = Some (js ''Hi'')"
    "example_data (js ''message'') = Some (js ''Test'')"
    by (simp_all add: example_data_def js_def)
  have b: "submitButton (example_form [2, 4])
      = Some \<lparr>innerHTML = js ''Send Message'', disabled = False\<rparr>"
    by (simp add: example_form_def)
  have enc: "percentEncode (js ''A'') = js ''A''" "percentEncode (js ''a@b.com'') = js ''a%40b.com''"
    "percentEncode (js ''Hi'') = js ''Hi''" "percentEncode (js ''Test'') = js ''Test''"
    by (simp_all add: percentEncode_def encodeCodePoint_def uriUnreserved_def utf8_def
        percentByte_def hexDigit_def js_def)
  from sendEmail_mailto [OF b d sc]
  obtain p' where "sendEmail example_data (example_form [2, 4]) = Inr p'"
    and "location_href p' =
           js ''mailto:saikumarpolavaram@outlook.com'' @
           js ''?subject='' @ js ''Portfolio%20Contact%3A%20'' @ js ''Hi'' @
           js ''&body='' @ js ''%0AName%3A%20'' @ js ''A'' @
           js ''%0AEmail%3A%20'' @ js ''a%40b.com'' @
           js ''%0ASubject%3A%20'' @ js ''Hi'' @
           js ''%0A%0AMessage%3A%0A'' @ js ''Test'' @
           js ''%0A%20%20%20%20''"
    by (auto simp: enc)
  then show ?thesis by (simp add: js_def)
qed

subsection \<open>Submission\<close>

text \<open>
  Validating a field changes neither the values and types of the fields nor the location,
  the submit button or the scheduled callbacks; its verdict depends on the value and the
  type of the field alone.
\<close>

lemma validateField_same_input: "same_input p q \<Longrightarrow> same_input p (snd (validateField f q))"
  by (simp add: same_input_def validateField_def showFieldError_def clearFieldError_def Let_def)

lemma validateField_verdict:
  "same_input p q \<Longrightarrow> fst (validateField f q) = fst (validateField f p)"
  by (simp add: same_input_def validateField_def Let_def)

lemma validateField_frame:
  "location_href (snd (validateField f q)) = location_href q"
  "submitButton (snd (validateField f q)) = submitButton q"
  "timeouts (snd (validateField f q)) = timeouts q"
  "inputs (snd (validateField f q)) = inputs q"
  by (simp_all add: validateField_def showFieldError_def clearFieldError_def Let_def)

lemma validateField_class:
  "(''error'' \<in> field_classList (elems (snd (validateField f q)) f)) = (\<not> fst (validateField f q))"
  by (simp add: validateField_def showFieldError_def clearFieldError_def Let_def)

lemma validateField_other:
  "g \<noteq> f \<Longrightarrow>
   field_classList (elems (snd (validateField g q)) f) = field_classList (elems q f)"
  by (simp add: validateField_def showFieldError_def clearFieldError_def Let_def)

text \<open>
  The loop of handleFormSubmit: its flag is the conjunction of the verdicts of all inputs,
  its state the one after validating each input in turn.
\<close>

lemma validate_fold:
  "same_input p q \<Longrightarrow>
   foldl (\<lambda>(isFormValid, q) input.
            (let (ok, q') = validateField input q
             in (if \<not> ok then False else isFormValid, q')))
         (b, q) fs
   = (b \<and> list_all (\<lambda>f. fst (validateField f p)) fs, validateEach fs q)"
proof (induction fs arbitrary: b q)
  case Nil
  then show ?case by (simp add: validateEach_def)
next
  case (Cons f fs)
  have si: "same_input p (snd (validateField f q))"
    using Cons.prems by (rule validateField_same_input)
  have v: "fst (validateField f q) = fst (validateField f p)"
    using Cons.prems by (rule validateField_verdict)
  show ?case
    using Cons.IH [OF si, of "if \<not> fst (validateField f q) then False else b"] v
    by (auto simp: validateEach_def split_beta Let_def)
qed

lemma validateAll_eq:
  "validateAll p = (list_all (\<lambda>f. fst (validateField f p)) (inputs p), validateEach (inputs p) p)"
  unfolding validateAll_def using validate_fold [of p p True "inputs p"]
  by (simp add: same_input_def)

lemma validateEach_frame:
  "location_href (validateEach fs q) = location_href q
   \<and> submitButton (validateEach fs q) = submitButton q
   \<and> timeouts (validateEach fs q) = timeouts q"
  by (induction fs arbitrary: q) (simp_all add: validateEach_def validateField_frame)

lemma validateEach_untouched:
  "f \<notin> set fs \<Longrightarrow> field_classList (elems (validateEach fs q) f) = field_classList (elems q f)"
  by (induction fs arbitrary: q) (auto simp: validateEach_def validateField_other)

lemma validateEach_classes:
  "same_input p q \<Longrightarrow>
   list_all (\<lambda>f. (''error'' \<in> field_classList (elems (validateEach fs q) f))
                  = (\<not> fst (validateField f p))) fs"
proof (induction fs arbitrary: q)
  case Nil
  then show ?case by simp
next
  case (Cons g fs)
  let ?q' = "snd (validateField g q)"
  have si: "same_input p ?q'" using Cons.prems by (rule validateField_same_input)
  have step: "validateEach (g # fs) q = validateEach fs ?q'" by (simp add: validateEach_def)
  have tail: "list_all (\<lambda>f. (''error'' \<in> field_classList (elems (validateEach fs ?q') f))
                  = (\<not> fst (validateField f p))) fs"
    using si by (rule Cons.IH)
  have head: "(''error'' \<in> field_classList (elems (validateEach fs ?q') g))
      = (\<not> fst (validateField g p))"
  proof (cases "g \<in> set fs")
    case True
    with tail show ?thesis by (simp add: list_all_iff)
  next
    case False
    then have "field_classList (elems (validateEach fs ?q') g) = field_classList (elems ?q' g)"
      by (rule validateEach_untouched)
    then show ?thesis
      using validateField_class [of g q] validateField_verdict [OF Cons.prems, of g] by simp
  qed
  show ?case unfolding step using head tail by simp
qed

text \<open>
  C4. handleFormSubmit validates every input of the form: afterwards each input has the
  class error exactly when its own validation fails, no matter which other inputs failed.
  It then calls sendEmail, on the state the validations left, if and only if every input
  is valid; otherwise it returns that state. The validations change neither the location
  nor the submit button nor the scheduled callbacks, so when some input is invalid there
  is no navigation to the mailto link and no change of the button.
\<close>

theorem handleFormSubmit_gate:
  "handleFormSubmit data p =
     (if list_all (\<lambda>f. fst (validateField f p)) (inputs p)
      then sendEmail data (snd (validateAll p))
      else Inr (snd (validateAll p)))
   \<and> location_href (snd (validateAll p)) = location_href p
   \<and> submitButton (snd (validateAll p)) = submitButton p
   \<and> timeouts (snd (validateAll p)) = timeouts p
   \<and> list_all (\<lambda>f. (''error'' \<in> field_classList (elems (snd (validateAll p)) f))
                    = (\<not> fst (validateField f p))) (inputs p)"
proof -
  have "same_input p p" by (simp add: same_input_def)
  then have "list_all (\<lambda>f. (''error'' \<in> field_classList (elems (validateEach (inputs p) p) f))
                    = (\<not> fst (validateField f p))) (inputs p)"
    by (rule validateEach_classes)
  then show ?thesis
    by (simp add: handleFormSubmit_def validateAll_eq validateEach_frame)
qed

lemma example_verdicts:
  "\<not> fst (validateField 0 (example_form fs))" "fst (validateField 2 (example_form fs))"
  "\<not> fst (validateField 3 (example_form fs))" "fst (validateField 4 (example_form fs))"
  by (simp_all add: validateField_def Let_def example_form_def example_field_def trim_def
      js_def isWhiteSpace_def emailRegex_def)

text \<open>
  C4 on the example form. With the blank field and the bad address among the inputs the
  submission is blocked: the location and the button are as before, and both fields, the
  first and the third, are marked. With the two valid fields alone sendEmail runs and the
  location becomes the mailto link.
\<close>

theorem handleFormSubmit_gate_witness:
  "handleFormSubmit example_data (example_form [0, 2, 3, 4])
     = Inr (snd (validateAll (example_form [0, 2, 3, 4])))
   \<and> location_href (snd (validateAll (example_form [0, 2, 3, 4]))) = js ''https://example.org/''
   \<and> submitButton (snd (validateAll (example_form [0, 2, 3, 4])))
     = Some \<lparr>innerHTML = js ''Send Message'', disabled = False\<rparr>
   \<and> timeouts (snd (validateAll (example_form [0, 2, 3, 4]))) = []
   \<and> ''error'' \<in> field_classList (elems (snd (validateAll (example_form [0, 2, 3, 4]))) 0)
   \<and> ''error'' \<notin> field_classList (elems (snd (validateAll (example_form [0, 2, 3, 4]))) 2)
   \<and> ''error'' \<in> field_classList (elems (snd (validateAll (example_form [0, 2, 3, 4]))) 3)
   \<and> handleFormSubmit example_data (example_form [2, 4])
     = sendEmail example_data (snd (validateAll (example_form [2, 4])))
   \<and> (\<exists>p'. handleFormSubmit example_data (example_form [2, 4]) = Inr p'
        \<and> disabled (the (submitButton p'))
        \<and> location_href p' =
             js ''mailto:saikumarpolavaram@outlook.com?subject=''
             @ percentEncode (mailSubject example_data)
             @ js ''&body='' @ percentEncode (mailBody example_data))"
proof -
  have i: "inputs (example_form fs) = fs" for fs by (simp add: example_form_def)
  have f: "location_href (example_form fs) = js ''https://example.org/''"
    "submitButton (example_form fs) = Some \<lparr>innerHTML = js ''Send Message'', disabled = False\<rparr>"
    "timeouts (example_form fs) = []" for fs
    by (simp_all add: example_form_def)
  note bad = handleFormSubmit_gate [of example_data "example_form [0, 2, 3, 4]"]
  note good = handleFormSubmit_gate [of example_data "example_form [2, 4]"]
  have d: "example_data (js ''name'') = Some (js ''A'')"
    "example_data (js ''email'') = Some (js ''a@b.com'')"
    "example_data (js ''subject'') = Some (js ''Hi'')"
    "example_data (js ''message'') = Some (js ''Test'')"
    by (simp_all add: example_data_def js_def)
  have sc: "list_all isScalarValue (mailSubject example_data)"
    "list_all isScalarValue (mailBody example_data)"
    by (rule mailBody_scalar [OF d]; rule scalar_js)+
  have sb: "submitButton (snd (validateAll (example_form [2, 4])))
      = Some \<lparr>innerHTML = js ''Send Message'', disabled = False\<rparr>"
    using good by (simp add: f)
  have sent: "\<exists>p'. sendEmail example_data (snd (validateAll (example_form [2, 4]))) = Inr p'
        \<and> disabled (the (submitButton p'))
        \<and> location_href p' =
             js ''mailto:saikumarpolavaram@outlook.com?subject=''
             @ percentEncode (mailSubject example_data)
             @ js ''&body='' @ percentEncode (mailBody example_data)"
    unfolding sendEmail_scalar [OF sb sc] by simp
  from bad good sent show ?thesis
    by (simp add: i f example_verdicts)
qed

end
